theory Spec2Isabelle
  imports Main "HOL-Library.Sublist"
begin

section \<open>The training loop driver of kauldron (train/train\_lib.py)\<close>

text \<open>
  The driver \<open>train_impl\<close> sequences side effects on collaborators (checkpointer,
  evaluators, writer, timer, dataset iterator, profiler). The embedding threads a
  world record through the code in source order; every call on a collaborator appends
  an event to the trace, tagged with the transfer-guard policy in force at the call.
  Exceptions are values: a failing run returns \<open>Inl (error, world at the raise)\<close>.
\<close>

subsection \<open>Data model\<close>

datatype error =
    ValueError            \<comment> \<open>\<open>trainer.num_train_steps is None\<close>\<close>
  | ZeroDivisionError     \<comment> \<open>\<open>i % 0\<close>\<close>
  | StopIteration         \<comment> \<open>\<open>next(ds_iter)\<close> on an exhausted iterator\<close>
  | CheckifyError         \<comment> \<open>\<open>jax.device_get(aux.error).throw()\<close>\<close>
  | FileNotFoundError     \<comment> \<open>restore of a step that was never stored\<close>

datatype transfer_policy = Unguarded | Disallow | Allow

datatype hook = Profiler

datatype event =
    LogConfiguring
  | SetupRun
  | LogInitializing
  | TrainstepInit bool
  | CkptRestore
  | WriteConfig
  | WriteParamOverview int
  | WriteElementSpec int
  | WriteContextStructure int
  | LogStarting int
  | ExcludeEnter
  | ExcludeExit
  | CkptSave int
  | MaybeEval string int
  | NextBatch nat
  | DevicePut
  | TrainstepStep bool bool bool
  | FinishStep
  | DeviceGetError
  | WriteStepMetrics int bool
  | CallHook hook int
  | TouchTrainComplete
  | Sync

text \<open>
  Modelled from the spec: the timer (kauldron/train/timer.py is not part of the
  sources at hand). The spec gives it an initial step number, one mutation per step
  (\<open>finish_step\<close>) and one per excluded interval; wall-clock time is left out.
\<close>

record performance_timer =
  initial_step_num :: int
  finished_steps :: nat
  excluded_intervals :: nat

definition PerformanceTimer :: "int \<Rightarrow> performance_timer" where
  "PerformanceTimer initial_step =
     \<lparr>initial_step_num = initial_step, finished_steps = 0, excluded_intervals = 0\<rparr>"

text \<open>\<open>CheckpointState(state, timer, ds_iter)\<close>: the iterator is its cursor.\<close>

type_synonym 's checkpoint_state = "'s \<times> performance_timer \<times> nat"

text \<open>
  Modelled from the spec: the checkpoint coordinator (kauldron/train/checkpointer.py is
  not part of the sources at hand). It persists checkpoint states keyed by step number,
  reports the latest step, and \<open>restore\<close> with \<open>noop_if_missing\<close> and no checkpoint
  returns its input unchanged. The most recent save of a step is the first entry.
\<close>

record 's checkpointer =
  saved :: "(int \<times> 's checkpoint_state) list"
  latest_step :: "int option"

definition ckpt_save :: "'s checkpoint_state \<Rightarrow> int \<Rightarrow> 's checkpointer \<Rightarrow> 's checkpointer" where
  "ckpt_save cs i ck =
     ck\<lparr>saved := (i, cs) # saved ck,
        latest_step := Some (case latest_step ck of None \<Rightarrow> i | Some l \<Rightarrow> max l i)\<rparr>"

definition ckpt_restore ::
  "'s checkpointer \<Rightarrow> 's checkpoint_state \<Rightarrow> bool \<Rightarrow> error + 's checkpoint_state" where
  "ckpt_restore ck initial noop_if_missing =
     (case latest_step ck of
        None \<Rightarrow> if noop_if_missing then Inr initial else Inl FileNotFoundError
      | Some k \<Rightarrow>
          (case map_of (saved ck) k of
             None \<Rightarrow> Inl FileNotFoundError
           | Some cs \<Rightarrow> Inr cs))"

text \<open>
  The trainer configuration, with the collaborators' pure parts as fields:
  \<open>should_save\<close> is \<open>ckpt.should_save\<close>, \<open>trainstep_init\<close> and \<open>trainstep_step\<close> are
  \<open>trainstep.init\<close> and \<open>trainstep.step\<close>, \<open>aux_error\<close> tells whether
  \<open>aux.error.throw()\<close> raises, \<open>evals\<close> lists the keys of \<open>trainer.evals\<close> in dict order,
  \<open>train_ds\<close> is the sequence of batches the dataset iterator yields, and
  \<open>jax_transfer_guard\<close> is the transfer-guard policy of the process when \<open>train_impl\<close> is
  called (\<open>Unguarded\<close> when the caller has set none).
\<close>

record ('s, 'b, 'a) trainer =
  num_train_steps :: "int option"
  stop_after_steps :: "int option"
  log_summaries_every :: int
  log_metrics_every :: int
  checkify_error_categories :: "string list"
  evals :: "string list"
  train_ds :: "'b list"
  should_save :: "int \<Rightarrow> bool"
  trainstep_init :: "bool \<Rightarrow> 's"
  trainstep_step :: "'s \<Rightarrow> 'b \<Rightarrow> bool \<Rightarrow> bool \<Rightarrow> bool \<Rightarrow> string list \<Rightarrow> 's \<times> 'a"
  aux_error :: "'a \<Rightarrow> bool"
  workdir_exists :: bool
  is_lead_host :: bool
  jax_disable_jit :: bool
  jax_transfer_guard :: transfer_policy

record ('s, 'a) world =
  trace :: "(transfer_policy \<times> event) list"
  state :: 's
  timer :: performance_timer
  ds_iter :: nat
  aux :: "'a option"
  ckpt :: "'s checkpointer"
  guard :: transfer_policy

definition emit :: "event \<Rightarrow> ('s, 'a) world \<Rightarrow> ('s, 'a) world" where
  "emit e w = w\<lparr>trace := trace w @ [(guard w, e)]\<rparr>"

definition events :: "('s, 'a) world \<Rightarrow> event list" where
  "events w = map snd (trace w)"

subsection \<open>Step enumeration\<close>

text \<open>
  Modelled from the spec: \<open>utils.enum_iter\<close> (kauldron/utils/utils.py is not part of the
  sources at hand) yields the integers of \<open>[init_step, total_steps)\<close> in order.
\<close>

definition enum_iter :: "int \<Rightarrow> int \<Rightarrow> int list" where
  "enum_iter init_step total_steps = [init_step..total_steps - 1]"

text \<open>
  \<open>_enum_steps_with_hooks\<close> is a generator: its body up to the first \<open>yield\<close> runs at
  the first \<open>next\<close>, and the hooks of step \<open>i\<close> run when the loop asks for the step after
  \<open>i\<close>. The step list and the hook list are computed here; \<open>train_loop\<close> interleaves them
  with the loop body.
\<close>

definition enum_steps_with_hooks :: "int \<Rightarrow> int option \<Rightarrow> int option \<Rightarrow> error + int list" where
  "enum_steps_with_hooks initial_step nts sas =
     (case nts of
        None \<Rightarrow> Inl ValueError
      | Some n \<Rightarrow>
          (let total_steps = n + 1;
               total_steps = (case sas of None \<Rightarrow> total_steps | Some s \<Rightarrow> min total_steps s)
           in Inr (enum_iter initial_step total_steps)))"

definition hooks :: "('s, 'b, 'a) trainer \<Rightarrow> hook list" where
  "hooks tr = (if is_lead_host tr then [Profiler] else [])"

definition run_hooks :: "('s, 'b, 'a) trainer \<Rightarrow> int \<Rightarrow> ('s, 'a) world \<Rightarrow> ('s, 'a) world" where
  "run_hooks tr i w = fold (\<lambda>h. emit (CallHook h i)) (hooks tr) w"

subsection \<open>The loop body\<close>

text \<open>Lines 94 to 105: the block under \<open>timer.exclude_from_step_stats()\<close>.\<close>

definition save_and_eval :: "('s, 'b, 'a) trainer \<Rightarrow> int \<Rightarrow> ('s, 'a) world \<Rightarrow> ('s, 'a) world" where
  "save_and_eval tr i w =
     (let w1 = emit ExcludeEnter w;
          w2 = (if should_save tr i
                then (emit (CkptSave i) w1)
                       \<lparr>ckpt := ckpt_save (state w1, timer w1, ds_iter w1) i (ckpt w1)\<rparr>
                else w1);
          w3 = fold (\<lambda>evaluator. emit (MaybeEval evaluator i)) (evals tr) w2
      in (emit ExcludeExit w3)
           \<lparr>timer := (timer w3)\<lparr>excluded_intervals := Suc (excluded_intervals (timer w3))\<rparr>\<rparr>)"

text \<open>Lines 107 to 109: \<open>(log_summaries, log_metrics)\<close>; Python's \<open>%\<close> raises on zero.\<close>

definition log_flags :: "('s, 'b, 'a) trainer \<Rightarrow> int \<Rightarrow> error + (bool \<times> bool)" where
  "log_flags tr i =
     (if log_summaries_every tr = 0 then Inl ZeroDivisionError
      else if log_metrics_every tr = 0 then Inl ZeroDivisionError
      else Inr (i mod log_summaries_every tr = 0, i mod log_metrics_every tr = 0))"

text \<open>Line 111: \<open>next(ds_iter)\<close>.\<close>

definition next_batch :: "('s, 'b, 'a) trainer \<Rightarrow> ('s, 'a) world \<Rightarrow> (error \<times> ('s, 'a) world) + ('b \<times> ('s, 'a) world)" where
  "next_batch tr w =
     (if ds_iter w < length (train_ds tr)
      then Inr (train_ds tr ! ds_iter w,
                (emit (NextBatch (ds_iter w)) w)\<lparr>ds_iter := Suc (ds_iter w)\<rparr>)
      else Inl (StopIteration, w))"

definition finish_step :: "('s, 'a) world \<Rightarrow> ('s, 'a) world" where
  "finish_step w =
     (emit FinishStep w)\<lparr>timer := (timer w)\<lparr>finished_steps := Suc (finished_steps (timer w))\<rparr>\<rparr>"

text \<open>Lines 112 to 137.\<close>

definition exec_step ::
  "('s, 'b, 'a) trainer \<Rightarrow> int \<Rightarrow> bool \<Rightarrow> bool \<Rightarrow> 'b \<Rightarrow> ('s, 'a) world \<Rightarrow> (error \<times> ('s, 'a) world) + ('s, 'a) world" where
  "exec_step tr i log_summaries log_metrics batch w =
     (let log_any = (log_metrics \<or> log_summaries);
          w1 = emit DevicePut w;
          r = trainstep_step tr (state w1) batch log_any log_metrics log_summaries
                (checkify_error_categories tr);
          w2 = (emit (TrainstepStep log_any log_metrics log_summaries) w1)
                 \<lparr>state := fst r, aux := Some (snd r)\<rparr>;
          w3 = finish_step w2
      in if checkify_error_categories tr \<noteq> [] \<and> aux_error tr (snd r)
         then Inl (CheckifyError, emit DeviceGetError w3)
         else
           (let w4 = (if checkify_error_categories tr \<noteq> [] then emit DeviceGetError w3 else w3)
            in Inr (if log_any \<and> is_lead_host tr
                    then emit (WriteStepMetrics i log_summaries) w4
                    else w4)))"

definition train_body :: "('s, 'b, 'a) trainer \<Rightarrow> int \<Rightarrow> ('s, 'a) world \<Rightarrow> (error \<times> ('s, 'a) world) + ('s, 'a) world" where
  "train_body tr i w =
     (let w1 = save_and_eval tr i w
      in case log_flags tr i of
           Inl e \<Rightarrow> Inl (e, w1)
         | Inr (log_summaries, log_metrics) \<Rightarrow>
             (case next_batch tr w1 of
                Inl e \<Rightarrow> Inl e
              | Inr (batch, w2) \<Rightarrow> exec_step tr i log_summaries log_metrics batch w2))"

fun train_loop :: "('s, 'b, 'a) trainer \<Rightarrow> int list \<Rightarrow> ('s, 'a) world \<Rightarrow> (error \<times> ('s, 'a) world) + ('s, 'a) world" where
  "train_loop tr [] w = Inr w"
| "train_loop tr (i # rest) w =
     (case train_body tr i w of
        Inl e \<Rightarrow> Inl e
      | Inr w' \<Rightarrow> train_loop tr rest (run_hooks tr i w'))"

subsection \<open>The driver\<close>

text \<open>\<open>_sync\<close>: the barrier under \<open>jax.transfer_guard("allow")\<close>.\<close>

definition sync :: "('s, 'a) world \<Rightarrow> ('s, 'a) world" where
  "sync w = (emit Sync (w\<lparr>guard := Allow\<rparr>))\<lparr>guard := guard w\<rparr>"

text \<open>Lines 139 to 145.\<close>

definition finish :: "('s, 'b, 'a) trainer \<Rightarrow> ('s, 'a) world \<Rightarrow> ('s, 'a) world" where
  "finish tr w = sync (if workdir_exists tr then emit TouchTrainComplete w else w)"

text \<open>Lines 47 to 74: everything up to and including \<open>ckpt.restore\<close>.\<close>

definition initial_step_of :: "'s checkpointer \<Rightarrow> int" where
  "initial_step_of ck = (case latest_step ck of None \<Rightarrow> 0 | Some k \<Rightarrow> k)"

definition startup :: "('s, 'b, 'a) trainer \<Rightarrow> 's checkpointer \<Rightarrow> ('s, 'a) world" where
  "startup tr ck =
     \<lparr>trace = map (Pair (jax_transfer_guard tr))
        [LogConfiguring, SetupRun, LogInitializing,
         TrainstepInit (latest_step ck \<noteq> None), CkptRestore],
      state = trainstep_init tr (latest_step ck \<noteq> None),
      timer = PerformanceTimer (initial_step_of ck),
      ds_iter = 0,
      aux = None,
      ckpt = ck,
      guard = jax_transfer_guard tr\<rparr>"

definition fresh_start_writes :: "int \<Rightarrow> ('s, 'a) world \<Rightarrow> ('s, 'a) world" where
  "fresh_start_writes initial_step w =
     (if initial_step = 0
      then emit (WriteContextStructure initial_step)
             (emit (WriteElementSpec initial_step)
               (emit (WriteParamOverview initial_step)
                 (emit WriteConfig w)))
      else w)"

text \<open>\<open>_transfer_guard\<close>: the policy under which the loop runs.\<close>

definition transfer_guard :: "('s, 'b, 'a) trainer \<Rightarrow> transfer_policy \<Rightarrow> transfer_policy" where
  "transfer_guard tr outer = (if \<not> jax_disable_jit tr then Disallow else outer)"

definition train_impl :: "('s, 'b, 'a) trainer \<Rightarrow> 's checkpointer \<Rightarrow> (error \<times> ('s, 'a) world) + ('s, 'a) world" where
  "train_impl tr ck =
     (let w0 = startup tr ck;
          initial_step = initial_step_of ck
      in case ckpt_restore ck (state w0, timer w0, ds_iter w0) True of
           Inl e \<Rightarrow> Inl (e, w0)
         | Inr (st, tm, it) \<Rightarrow>
             (let w1 = w0\<lparr>state := st, timer := tm, ds_iter := it\<rparr>;
                  w2 = fresh_start_writes initial_step w1;
                  w3 = emit (LogStarting initial_step) w2;
                  outer = guard w3;
                  w4 = w3\<lparr>guard := transfer_guard tr outer\<rparr>
              in case enum_steps_with_hooks initial_step (num_train_steps tr) (stop_after_steps tr) of
                   Inl e \<Rightarrow> Inl (e, w4\<lparr>guard := outer\<rparr>)
                 | Inr steps \<Rightarrow>
                     (case train_loop tr steps w4 of
                        Inl (e, w5) \<Rightarrow> Inl (e, w5\<lparr>guard := outer\<rparr>)
                      | Inr w5 \<Rightarrow> Inr (finish tr (w5\<lparr>guard := outer\<rparr>)))))"

text \<open>The value \<open>train_impl\<close> returns: \<open>(state, aux)\<close>.\<close>

definition train_result :: "('s, 'a) world \<Rightarrow> 's \<times> 'a option" where
  "train_result w = (state w, aux w)"

subsection \<open>Definitions that follow the specification's words\<close>

text \<open>The specification's \<open>total_steps = min(num_train_steps + 1, stop_after_steps or infinity)\<close>.\<close>

definition spec_total_steps :: "int \<Rightarrow> int option \<Rightarrow> int" where
  "spec_total_steps n sas = (case sas of None \<Rightarrow> n + 1 | Some s \<Rightarrow> min (n + 1) s)"

text \<open>
  The seven kinds of per-step side effect the specification orders: (a) checkpoint save,
  (b) evaluator dispatch, (c) batch fetch, (d) step execution, (e) timer update,
  (f) metrics/summary write, (g) per-step hooks.
\<close>

fun is_phase :: "event \<Rightarrow> bool" where
  "is_phase (CkptSave i) = True"
| "is_phase (MaybeEval n i) = True"
| "is_phase (NextBatch c) = True"
| "is_phase (TrainstepStep a b c) = True"
| "is_phase FinishStep = True"
| "is_phase (WriteStepMetrics i s) = True"
| "is_phase (CallHook h i) = True"
| "is_phase _ = False"

definition phases :: "('s, 'a) world \<Rightarrow> event list" where
  "phases w = filter is_phase (events w)"

text \<open>
  The specification's order within one step, from the step index and the iterator
  position at its start: (a) to (f) for the loop body, then (g).
\<close>

definition spec_body_order :: "('s, 'b, 'a) trainer \<Rightarrow> int \<Rightarrow> nat \<Rightarrow> event list" where
  "spec_body_order tr i c =
     (let log_summaries = (i mod log_summaries_every tr = 0);
          log_metrics = (i mod log_metrics_every tr = 0);
          log_any = (log_metrics \<or> log_summaries)
      in (if should_save tr i then [CkptSave i] else [])
         @ map (\<lambda>evaluator. MaybeEval evaluator i) (evals tr)
         @ [NextBatch c]
         @ [TrainstepStep log_any log_metrics log_summaries]
         @ [FinishStep]
         @ (if log_any \<and> is_lead_host tr then [WriteStepMetrics i log_summaries] else []))"

definition spec_step_order :: "('s, 'b, 'a) trainer \<Rightarrow> int \<Rightarrow> nat \<Rightarrow> event list" where
  "spec_step_order tr i c =
     spec_body_order tr i c @ (if is_lead_host tr then [CallHook Profiler i] else [])"

fun spec_loop_order :: "('s, 'b, 'a) trainer \<Rightarrow> int list \<Rightarrow> nat \<Rightarrow> event list" where
  "spec_loop_order tr [] c = []"
| "spec_loop_order tr (i # rest) c = spec_step_order tr i c @ spec_loop_order tr rest (Suc c)"

subsection \<open>Derived notions used by the statements\<close>

text \<open>
  The world in which a run ended and the exception it raised, if any; the events that
  only the loop body and the hooks produce; the checkpoint state that \<open>ckpt.restore\<close>
  hands back at startup and the world in which the loop is entered.
\<close>

definition outcome :: "(error \<times> ('s, 'a) world) + ('s, 'a) world \<Rightarrow> ('s, 'a) world" where
  "outcome r = (case r of Inl (e, w) \<Rightarrow> w | Inr w \<Rightarrow> w)"

definition raised :: "(error \<times> ('s, 'a) world) + ('s, 'a) world \<Rightarrow> error option" where
  "raised r = (case r of Inl (e, w) \<Rightarrow> Some e | Inr w \<Rightarrow> None)"

fun in_loop :: "event \<Rightarrow> bool" where
  "in_loop ExcludeEnter = True"
| "in_loop ExcludeExit = True"
| "in_loop (CkptSave i) = True"
| "in_loop (MaybeEval n i) = True"
| "in_loop (NextBatch c) = True"
| "in_loop DevicePut = True"
| "in_loop (TrainstepStep a b c) = True"
| "in_loop FinishStep = True"
| "in_loop DeviceGetError = True"
| "in_loop (WriteStepMetrics i s) = True"
| "in_loop (CallHook h i) = True"
| "in_loop _ = False"

definition restorable :: "'s checkpointer \<Rightarrow> bool" where
  "restorable ck = (case latest_step ck of None \<Rightarrow> True | Some k \<Rightarrow> map_of (saved ck) k \<noteq> None)"

definition restored :: "('s, 'b, 'a) trainer \<Rightarrow> 's checkpointer \<Rightarrow> 's checkpoint_state" where
  "restored tr ck =
     (let initial = (trainstep_init tr (latest_step ck \<noteq> None), PerformanceTimer (initial_step_of ck), 0)
      in case latest_step ck of
           None \<Rightarrow> initial
         | Some k \<Rightarrow> (case map_of (saved ck) k of None \<Rightarrow> initial | Some cs \<Rightarrow> cs))"

definition loop_entry :: "('s, 'b, 'a) trainer \<Rightarrow> 's checkpointer \<Rightarrow> ('s, 'a) world" where
  "loop_entry tr ck =
     (emit (LogStarting (initial_step_of ck))
        (fresh_start_writes (initial_step_of ck)
           ((startup tr ck)\<lparr>state := fst (restored tr ck), timer := fst (snd (restored tr ck)),
              ds_iter := snd (snd (restored tr ck))\<rparr>)))
       \<lparr>guard := transfer_guard tr (jax_transfer_guard tr)\<rparr>"

definition startup_events :: "'s checkpointer \<Rightarrow> event list" where
  "startup_events ck =
     [LogConfiguring, SetupRun, LogInitializing, TrainstepInit (latest_step ck \<noteq> None), CkptRestore]"

definition entry_events :: "'s checkpointer \<Rightarrow> event list" where
  "entry_events ck =
     startup_events ck
     @ (if initial_step_of ck = 0
        then [WriteConfig, WriteParamOverview 0, WriteElementSpec 0, WriteContextStructure 0]
        else [])
     @ [LogStarting (initial_step_of ck)]"

definition completion_events :: "('s, 'b, 'a) trainer \<Rightarrow> (transfer_policy \<times> event) list" where
  "completion_events tr =
     (if workdir_exists tr then [(jax_transfer_guard tr, TouchTrainComplete)] else [])
     @ [(Allow, Sync)]"

text \<open>The four writer calls of a fresh start.\<close>

fun is_fresh_write :: "event \<Rightarrow> bool" where
  "is_fresh_write WriteConfig = True"
| "is_fresh_write (WriteParamOverview i) = True"
| "is_fresh_write (WriteElementSpec i) = True"
| "is_fresh_write (WriteContextStructure i) = True"
| "is_fresh_write _ = False"

text \<open>The calls of \<open>writer.write_step_metrics\<close>.\<close>

fun is_step_write :: "event \<Rightarrow> bool" where
  "is_step_write (WriteStepMetrics i s) = True"
| "is_step_write _ = False"

text \<open>A step logs when one of the two cadences divides it: the source's \<open>log_any\<close>.\<close>

definition spec_logs :: "('s, 'b, 'a) trainer \<Rightarrow> int \<Rightarrow> bool" where
  "spec_logs tr i = (i mod log_metrics_every tr = 0 \<or> i mod log_summaries_every tr = 0)"

text \<open>
  The positions of the dataset iterator consumed by \<open>next(ds_iter)\<close>, in order, and the
  batches read there.
\<close>

fun cursors :: "event list \<Rightarrow> nat list" where
  "cursors [] = []"
| "cursors (NextBatch c # es) = c # cursors es"
| "cursors (e # es) = cursors es"

definition batches_fetched :: "('s, 'b, 'a) trainer \<Rightarrow> ('s, 'a) world \<Rightarrow> 'b list" where
  "batches_fetched tr w = map (\<lambda>c. train_ds tr ! c) (cursors (events w))"

subsection \<open>Example inputs\<close>

text \<open>
  A small trainer on the lead host: three steps (0, 1, 2) over the batches 10, 20, 30, 40, a
  save at every even step, summaries every 2 steps and metrics every 3, a step that adds the
  batch to the state and flags an error on a batch above 25; and variants of it.
\<close>

definition example_trainer :: "(int, int, bool) trainer" where
  "example_trainer =
     \<lparr>num_train_steps = Some 2, stop_after_steps = None,
      log_summaries_every = 2, log_metrics_every = 3,
      checkify_error_categories = [],
      evals = [''eval''],
      train_ds = [10, 20, 30, 40],
      should_save = (\<lambda>i. i mod 2 = 0),
      trainstep_init = (\<lambda>skip. 0),
      trainstep_step = (\<lambda>s b losses metrics summaries cats. (s + b, 25 < b)),
      aux_error = (\<lambda>a. a),
      workdir_exists = True, is_lead_host = True, jax_disable_jit = False,
      jax_transfer_guard = Unguarded\<rparr>"

definition no_checkpoint :: "int checkpointer" where
  "no_checkpoint = \<lparr>saved = [], latest_step = None\<rparr>"

definition example_unbounded :: "(int, int, bool) trainer" where
  "example_unbounded = example_trainer\<lparr>num_train_steps := None\<rparr>"

definition example_early_stop :: "(int, int, bool) trainer" where
  "example_early_stop = example_trainer\<lparr>stop_after_steps := Some 1\<rparr>"

definition example_no_jit :: "(int, int, bool) trainer" where
  "example_no_jit = example_trainer\<lparr>stop_after_steps := Some 1, jax_disable_jit := True\<rparr>"

definition example_no_jit_allow :: "(int, int, bool) trainer" where
  "example_no_jit_allow = example_no_jit\<lparr>jax_transfer_guard := Allow\<rparr>"

definition example_guarded_caller :: "(int, int, bool) trainer" where
  "example_guarded_caller = example_early_stop\<lparr>jax_transfer_guard := Disallow\<rparr>"

definition checkpoint_at_0 :: "int checkpointer" where
  "checkpoint_at_0 = \<lparr>saved = [(0, (0, PerformanceTimer 0, 0))], latest_step = Some 0\<rparr>"

definition checkpoint_at_2 :: "int checkpointer" where
  "checkpoint_at_2 =
     \<lparr>saved =
        [(2, (30, \<lparr>initial_step_num = 0, finished_steps = 2, excluded_intervals = 2\<rparr>, 2)),
         (0, (0, \<lparr>initial_step_num = 0, finished_steps = 0, excluded_intervals = 0\<rparr>, 0))],
      latest_step = Some 2\<rparr>"

definition example_checkify :: "(int, int, bool) trainer" where
  "example_checkify = example_trainer\<lparr>checkify_error_categories := [''nan'']\<rparr>"

section \<open>Theorems\<close>

subsection \<open>Field and trace lemmas\<close>

lemmas model_defs = train_body_def save_and_eval_def log_flags_def next_batch_def exec_step_def
  finish_step_def run_hooks_def hooks_def emit_def ckpt_save_def Let_def

lemma emit_fields [simp]:
  "trace (emit e w) = trace w @ [(guard w, e)]"
  "state (emit e w) = state w"
  "timer (emit e w) = timer w"
  "ds_iter (emit e w) = ds_iter w"
  "aux (emit e w) = aux w"
  "ckpt (emit e w) = ckpt w"
  "guard (emit e w) = guard w"
  by (simp_all add: emit_def)

lemma fold_emit_fields [simp]:
  "trace (fold (\<lambda>x. emit (f x)) xs w) = trace w @ map (\<lambda>x. (guard w, f x)) xs"
  "state (fold (\<lambda>x. emit (f x)) xs w) = state w"
  "timer (fold (\<lambda>x. emit (f x)) xs w) = timer w"
  "ds_iter (fold (\<lambda>x. emit (f x)) xs w) = ds_iter w"
  "aux (fold (\<lambda>x. emit (f x)) xs w) = aux w"
  "ckpt (fold (\<lambda>x. emit (f x)) xs w) = ckpt w"
  "guard (fold (\<lambda>x. emit (f x)) xs w) = guard w"
  by (induction xs arbitrary: w; simp)+

lemma save_and_eval_trace:
  "trace (save_and_eval tr i w) =
     trace w @ map (Pair (guard w))
       ([ExcludeEnter] @ (if should_save tr i then [CkptSave i] else [])
        @ map (\<lambda>evaluator. MaybeEval evaluator i) (evals tr) @ [ExcludeExit])"
  by (simp add: save_and_eval_def Let_def comp_def)

lemma save_and_eval_fields [simp]:
  "state (save_and_eval tr i w) = state w"
  "ds_iter (save_and_eval tr i w) = ds_iter w"
  "aux (save_and_eval tr i w) = aux w"
  "guard (save_and_eval tr i w) = guard w"
  by (simp_all add: save_and_eval_def Let_def)

lemma save_and_eval_phases:
  "phases (save_and_eval tr i w) =
     phases w @ (if should_save tr i then [CkptSave i] else [])
       @ map (\<lambda>evaluator. MaybeEval evaluator i) (evals tr)"
  by (simp add: phases_def events_def save_and_eval_trace comp_def filter_map)

lemma run_hooks_phases:
  "phases (run_hooks tr i w) = phases w @ (if is_lead_host tr then [CallHook Profiler i] else [])"
  by (simp add: phases_def events_def run_hooks_def hooks_def)

lemma run_hooks_fields [simp]:
  "state (run_hooks tr i w) = state w"
  "timer (run_hooks tr i w) = timer w"
  "ds_iter (run_hooks tr i w) = ds_iter w"
  "aux (run_hooks tr i w) = aux w"
  "ckpt (run_hooks tr i w) = ckpt w"
  "guard (run_hooks tr i w) = guard w"
  by (simp_all add: run_hooks_def)

lemma train_body_Inr:
  assumes "train_body tr i w = Inr w'"
  shows "phases w' = phases w @ spec_body_order tr i (ds_iter w)"
    and "ds_iter w' = Suc (ds_iter w)"
  using assms save_and_eval_phases [of tr i w]
  by (auto simp: train_body_def log_flags_def next_batch_def exec_step_def finish_step_def
      spec_body_order_def phases_def events_def Let_def
      split: if_splits sum.splits prod.splits)

lemma train_body_Inl:
  assumes "train_body tr i w = Inl (e, w')"
  shows "\<exists>rest. phases w' = phases w @ rest \<and> prefix rest (spec_body_order tr i (ds_iter w))"
  using assms save_and_eval_phases [of tr i w]
  by (auto simp: train_body_def log_flags_def next_batch_def exec_step_def finish_step_def
      spec_body_order_def phases_def events_def Let_def
      split: if_splits sum.splits prod.splits)

lemma train_loop_Inr:
  "train_loop tr steps w = Inr w' \<Longrightarrow>
     phases w' = phases w @ spec_loop_order tr steps (ds_iter w)"
proof (induction steps arbitrary: w)
  case Nil
  then show ?case by simp
next
  case (Cons i rest)
  from Cons.prems obtain w1 where b: "train_body tr i w = Inr w1"
    and l: "train_loop tr rest (run_hooks tr i w1) = Inr w'"
    by (auto split: sum.splits)
  from Cons.IH [OF l] train_body_Inr [OF b] show ?case
    by (simp add: run_hooks_phases spec_step_order_def)
qed

lemma train_loop_Inl:
  "train_loop tr steps w = Inl (e, w') \<Longrightarrow>
     \<exists>rest. phases w' = phases w @ rest \<and> prefix rest (spec_loop_order tr steps (ds_iter w))"
proof (induction steps arbitrary: w)
  case Nil
  then show ?case by simp
next
  case (Cons i rest)
  show ?case
  proof (cases "train_body tr i w")
    case (Inl p)
    with Cons.prems have b: "train_body tr i w = Inl (e, w')" by simp
    from train_body_Inl [OF b] obtain r where
      r: "phases w' = phases w @ r" "prefix r (spec_body_order tr i (ds_iter w))" by blast
    from r show ?thesis
      by (auto simp: spec_step_order_def prefix_def)
  next
    case (Inr w1)
    with Cons.prems have l: "train_loop tr rest (run_hooks tr i w1) = Inl (e, w')" by simp
    from Cons.IH [OF l] obtain r where
      r: "phases w' = phases (run_hooks tr i w1) @ r"
         "prefix r (spec_loop_order tr rest (ds_iter (run_hooks tr i w1)))" by blast
    from train_body_Inr [OF Inr] r show ?thesis
      by (auto simp: run_hooks_phases spec_step_order_def prefix_def)
  qed
qed

subsection \<open>The trace of the loop and of the driver\<close>

lemma ckpt_restore_restorable:
  "restorable ck \<Longrightarrow> ckpt_restore ck (trainstep_init tr (latest_step ck \<noteq> None), PerformanceTimer (initial_step_of ck), 0) True = Inr (restored tr ck)"
  by (auto simp: restorable_def ckpt_restore_def restored_def split: option.splits)

lemma ckpt_restore_not_restorable:
  "\<not> restorable ck \<Longrightarrow> ckpt_restore ck x True = Inl FileNotFoundError"
  by (auto simp: restorable_def ckpt_restore_def split: option.splits)

lemma startup_fields [simp]:
  "trace (startup tr ck) = map (Pair (jax_transfer_guard tr)) (startup_events ck)"
  "state (startup tr ck) = trainstep_init tr (latest_step ck \<noteq> None)"
  "timer (startup tr ck) = PerformanceTimer (initial_step_of ck)"
  "ds_iter (startup tr ck) = 0"
  "aux (startup tr ck) = None"
  "ckpt (startup tr ck) = ck"
  "guard (startup tr ck) = jax_transfer_guard tr"
  by (simp_all add: startup_def startup_events_def)

lemma fresh_start_writes_fields [simp]:
  "state (fresh_start_writes i w) = state w"
  "timer (fresh_start_writes i w) = timer w"
  "ds_iter (fresh_start_writes i w) = ds_iter w"
  "aux (fresh_start_writes i w) = aux w"
  "ckpt (fresh_start_writes i w) = ckpt w"
  "guard (fresh_start_writes i w) = guard w"
  by (simp_all add: fresh_start_writes_def)

lemma loop_entry_fields [simp]:
  "trace (loop_entry tr ck) = map (Pair (jax_transfer_guard tr)) (entry_events ck)"
  "state (loop_entry tr ck) = fst (restored tr ck)"
  "timer (loop_entry tr ck) = fst (snd (restored tr ck))"
  "ds_iter (loop_entry tr ck) = snd (snd (restored tr ck))"
  "aux (loop_entry tr ck) = None"
  "ckpt (loop_entry tr ck) = ck"
  "guard (loop_entry tr ck) = transfer_guard tr (jax_transfer_guard tr)"
  by (simp_all add: loop_entry_def entry_events_def fresh_start_writes_def)

lemma restore_at_startup:
  "restorable ck \<Longrightarrow>
   ckpt_restore ck (state (startup tr ck), timer (startup tr ck), ds_iter (startup tr ck)) True
     = Inr (restored tr ck)"
  unfolding startup_fields by (rule ckpt_restore_restorable)

lemma train_impl_not_restorable:
  "\<not> restorable ck \<Longrightarrow> train_impl tr ck = Inl (FileNotFoundError, startup tr ck)"
  by (simp add: train_impl_def ckpt_restore_not_restorable Let_def)

lemma train_impl_restorable:
  assumes "restorable ck"
  shows "train_impl tr ck =
     (case enum_steps_with_hooks (initial_step_of ck) (num_train_steps tr) (stop_after_steps tr) of
        Inl e \<Rightarrow> Inl (e, (loop_entry tr ck)\<lparr>guard := jax_transfer_guard tr\<rparr>)
      | Inr steps \<Rightarrow>
          (case train_loop tr steps (loop_entry tr ck) of
             Inl (e, w5) \<Rightarrow> Inl (e, w5\<lparr>guard := jax_transfer_guard tr\<rparr>)
           | Inr w5 \<Rightarrow> Inr (finish tr (w5\<lparr>guard := jax_transfer_guard tr\<rparr>))))"
proof -
  show ?thesis
    unfolding train_impl_def Let_def restore_at_startup [OF assms]
    by (simp add: loop_entry_def split_beta split: sum.splits)
qed

lemma outcome_simps [simp]:
  "outcome (Inl (e, w)) = w" "outcome (Inr w) = w"
  by (simp_all add: outcome_def)

lemma raised_simps [simp]:
  "raised (Inl (e, w)) = Some e" "raised (Inr w) = None"
  by (simp_all add: raised_def)

lemma exec_step_trace:
  "trace (outcome (exec_step tr i ls lm b w)) =
     trace w @ map (Pair (guard w))
       ([DevicePut, TrainstepStep (lm \<or> ls) lm ls, FinishStep]
        @ (if checkify_error_categories tr \<noteq> [] then [DeviceGetError] else [])
        @ (if raised (exec_step tr i ls lm b w) = None \<and> (lm \<or> ls) \<and> is_lead_host tr
           then [WriteStepMetrics i ls] else []))"
  by (simp add: exec_step_def finish_step_def Let_def)

lemma exec_step_guard [simp]:
  "guard (outcome (exec_step tr i ls lm b w)) = guard w"
  by (simp add: exec_step_def finish_step_def Let_def)

lemma train_body_guard [simp]:
  "guard (outcome (train_body tr i w)) = guard w"
  by (simp add: train_body_def log_flags_def next_batch_def Let_def split: sum.splits prod.splits)

lemma train_body_trace:
  "\<exists>new. trace (outcome (train_body tr i w)) = trace w @ map (Pair (guard w)) new
         \<and> list_all in_loop new"
proof -
  let ?w1 = "save_and_eval tr i w"
  let ?pre = "[ExcludeEnter] @ (if should_save tr i then [CkptSave i] else [])
        @ map (\<lambda>evaluator. MaybeEval evaluator i) (evals tr) @ [ExcludeExit]"
  have t1: "trace ?w1 = trace w @ map (Pair (guard w)) ?pre"
    by (rule save_and_eval_trace)
  have l1: "list_all in_loop ?pre"
    by (simp add: list_all_iff image_iff) auto
  show ?thesis
  proof (cases "log_flags tr i")
    case (Inl e)
    then have "trace (outcome (train_body tr i w)) = trace ?w1"
      by (simp add: train_body_def Let_def)
    with t1 l1 show ?thesis by (intro exI [of _ ?pre]) simp
  next
    case (Inr flags)
    obtain ls lm where flags: "flags = (ls, lm)" by (cases flags)
    show ?thesis
    proof (cases "ds_iter ?w1 < length (train_ds tr)")
      case False
      then have "trace (outcome (train_body tr i w)) = trace ?w1"
        using Inr flags by (simp add: train_body_def Let_def next_batch_def)
      with t1 l1 show ?thesis by (intro exI [of _ ?pre]) simp
    next
      case True
      let ?w2 = "(emit (NextBatch (ds_iter ?w1)) ?w1)\<lparr>ds_iter := Suc (ds_iter ?w1)\<rparr>"
      let ?b = "train_ds tr ! ds_iter ?w1"
      let ?post = "[DevicePut, TrainstepStep (lm \<or> ls) lm ls, FinishStep]
        @ (if checkify_error_categories tr \<noteq> [] then [DeviceGetError] else [])
        @ (if raised (exec_step tr i ls lm ?b ?w2) = None \<and> (lm \<or> ls) \<and> is_lead_host tr
           then [WriteStepMetrics i ls] else [])"
      have b: "train_body tr i w = exec_step tr i ls lm ?b ?w2"
        using Inr flags True by (simp add: train_body_def Let_def next_batch_def)
      have "trace (outcome (train_body tr i w)) =
              trace w @ map (Pair (guard w)) (?pre @ [NextBatch (ds_iter ?w1)] @ ?post)"
        unfolding b exec_step_trace by (simp add: t1)
      moreover have "list_all in_loop (?pre @ [NextBatch (ds_iter ?w1)] @ ?post)"
        using l1 by simp
      ultimately show ?thesis by blast
    qed
  qed
qed

lemma train_loop_trace:
  "\<exists>new. trace (outcome (train_loop tr steps w)) = trace w @ map (Pair (guard w)) new
         \<and> list_all in_loop new"
proof (induction steps arbitrary: w)
  case Nil
  have "trace w = trace w @ map (Pair (guard w)) [] \<and> list_all in_loop []" by simp
  then show ?case by (simp del: append_Nil2)
next
  case (Cons i rest)
  obtain new where n: "trace (outcome (train_body tr i w)) = trace w @ map (Pair (guard w)) new"
    "list_all in_loop new"
    using train_body_trace [of tr i w] by blast
  show ?case
  proof (cases "train_body tr i w")
    case (Inl p)
    then have "train_loop tr (i # rest) w = train_body tr i w" by simp
    with n show ?thesis by auto
  next
    case (Inr w1)
    have g: "guard w1 = guard w" using train_body_guard [of tr i w] Inr by simp
    let ?h = "if is_lead_host tr then [CallHook Profiler i] else []"
    have h: "trace (run_hooks tr i w1) = trace w1 @ map (Pair (guard w)) ?h"
      by (simp add: run_hooks_def hooks_def g)
    obtain new2 where n2:
      "trace (outcome (train_loop tr rest (run_hooks tr i w1))) =
         trace (run_hooks tr i w1) @ map (Pair (guard w)) new2" "list_all in_loop new2"
      using Cons.IH [of "run_hooks tr i w1"] g by auto
    have "trace (outcome (train_loop tr (i # rest) w)) =
            trace w @ map (Pair (guard w)) (new @ ?h @ new2)"
      using Inr n n2 h by simp
    moreover have "list_all in_loop (new @ ?h @ new2)" using n n2 by simp
    ultimately show ?thesis by blast
  qed
qed

lemma train_loop_guard [simp]:
  "guard (outcome (train_loop tr steps w)) = guard w"
proof (induction steps arbitrary: w)
  case Nil
  show ?case by simp
next
  case (Cons i rest)
  show ?case
  proof (cases "train_body tr i w")
    case (Inl p)
    then have "train_loop tr (i # rest) w = train_body tr i w" by simp
    then show ?thesis by simp
  next
    case (Inr w1)
    have g: "guard w1 = guard w" using train_body_guard [of tr i w] Inr by simp
    show ?thesis using Inr Cons.IH [of "run_hooks tr i w1"] g by simp
  qed
qed

lemma finish_fields [simp]:
  "trace (finish tr w) =
     trace w @ (if workdir_exists tr then [(guard w, TouchTrainComplete)] else []) @ [(Allow, Sync)]"
  "state (finish tr w) = state w"
  "timer (finish tr w) = timer w"
  "ds_iter (finish tr w) = ds_iter w"
  "aux (finish tr w) = aux w"
  "ckpt (finish tr w) = ckpt w"
  "guard (finish tr w) = guard w"
  by (simp_all add: finish_def sync_def emit_def)

lemma enum_steps_None [simp]:
  "enum_steps_with_hooks i None sas = Inl ValueError"
  by (simp add: enum_steps_with_hooks_def)

lemma enum_steps_Some:
  "enum_steps_with_hooks i (Some n) sas = Inr [i..spec_total_steps n sas - 1]"
  by (cases sas) (simp_all add: enum_steps_with_hooks_def enum_iter_def spec_total_steps_def)

lemma train_impl_unbounded:
  assumes "num_train_steps tr = None" and "restorable ck"
  shows "train_impl tr ck = Inl (ValueError, (loop_entry tr ck)\<lparr>guard := jax_transfer_guard tr\<rparr>)"
  using assms by (simp add: train_impl_restorable)

lemma train_impl_bounded:
  assumes "num_train_steps tr = Some n" and "restorable ck"
  shows "train_impl tr ck =
          (case train_loop tr [initial_step_of ck..spec_total_steps n (stop_after_steps tr) - 1]
                  (loop_entry tr ck) of
             Inl (e, w5) \<Rightarrow> Inl (e, w5\<lparr>guard := jax_transfer_guard tr\<rparr>)
           | Inr w5 \<Rightarrow> Inr (finish tr (w5\<lparr>guard := jax_transfer_guard tr\<rparr>)))"
  using assms by (simp add: train_impl_restorable enum_steps_Some)

lemma train_impl_trace:
  assumes "restorable ck"
  shows "\<exists>new. list_all in_loop new \<and>
           trace (outcome (train_impl tr ck)) =
             map (Pair (jax_transfer_guard tr)) (entry_events ck)
             @ map (Pair (transfer_guard tr (jax_transfer_guard tr))) new
             @ (if raised (train_impl tr ck) = None then completion_events tr else [])"
proof (cases "num_train_steps tr")
  case None
  have "list_all in_loop []" by simp
  moreover have "trace (outcome (train_impl tr ck)) =
             map (Pair (jax_transfer_guard tr)) (entry_events ck)
             @ map (Pair (transfer_guard tr (jax_transfer_guard tr))) []
             @ (if raised (train_impl tr ck) = None then completion_events tr else [])"
    by (simp add: train_impl_unbounded [OF None assms])
  ultimately show ?thesis by blast
next
  case (Some n)
  let ?steps = "[initial_step_of ck..spec_total_steps n (stop_after_steps tr) - 1]"
  let ?r = "train_loop tr ?steps (loop_entry tr ck)"
  obtain new where n: "trace (outcome ?r) =
      trace (loop_entry tr ck) @ map (Pair (guard (loop_entry tr ck))) new" "list_all in_loop new"
    using train_loop_trace [of tr ?steps "loop_entry tr ck"] by blast
  have "trace (outcome (train_impl tr ck)) =
             map (Pair (jax_transfer_guard tr)) (entry_events ck)
             @ map (Pair (transfer_guard tr (jax_transfer_guard tr))) new
             @ (if raised (train_impl tr ck) = None then completion_events tr else [])"
  proof (cases ?r)
    case (Inl p)
    obtain e w5 where p: "p = (e, w5)" by (cases p)
    show ?thesis
      using n Inl p by (simp add: train_impl_bounded [OF Some assms])
  next
    case (Inr w5)
    show ?thesis
      using n Inr by (simp add: train_impl_bounded [OF Some assms] completion_events_def)
  qed
  with n(2) show ?thesis by blast
qed

lemma train_impl_trace_not_restorable:
  "\<not> restorable ck \<Longrightarrow>
     trace (outcome (train_impl tr ck)) = map (Pair (jax_transfer_guard tr)) (startup_events ck)
     \<and> raised (train_impl tr ck) = Some FileNotFoundError"
  by (simp add: train_impl_not_restorable)

lemma in_loop_list_notin:
  "list_all in_loop new \<Longrightarrow> \<not> in_loop e \<Longrightarrow> e \<notin> set new"
  by (auto simp: list_all_iff)

lemma events_outcome_entry:
  assumes "restorable ck"
  shows "\<exists>new. list_all in_loop new \<and>
           events (outcome (train_impl tr ck)) =
             entry_events ck @ new
             @ (if raised (train_impl tr ck) = None then map snd (completion_events tr) else [])"
proof -
  obtain new where n: "list_all in_loop new"
    "trace (outcome (train_impl tr ck)) =
             map (Pair (jax_transfer_guard tr)) (entry_events ck)
             @ map (Pair (transfer_guard tr (jax_transfer_guard tr))) new
             @ (if raised (train_impl tr ck) = None then completion_events tr else [])"
    using train_impl_trace [OF assms, of tr] by blast
  have "events (outcome (train_impl tr ck)) =
             entry_events ck @ new
             @ (if raised (train_impl tr ck) = None then map snd (completion_events tr) else [])"
    by (simp add: events_def n(2) comp_def)
  with n(1) show ?thesis by blast
qed

subsection \<open>Completed and raising runs; runs of the examples\<close>

lemma no_checkpoint_restorable [simp]: "restorable no_checkpoint"
  by (simp add: restorable_def no_checkpoint_def)

lemma no_checkpoint_fields [simp]:
  "latest_step no_checkpoint = None" "saved no_checkpoint = []"
  "initial_step_of no_checkpoint = 0"
  by (simp_all add: no_checkpoint_def initial_step_of_def)

lemma checkpoint_at_0_fields [simp]:
  "latest_step checkpoint_at_0 = Some 0"
  "initial_step_of checkpoint_at_0 = 0"
  by (simp_all add: checkpoint_at_0_def initial_step_of_def)

lemma checkpoint_at_0_restorable [simp]: "restorable checkpoint_at_0"
  by (simp add: restorable_def checkpoint_at_0_def)

lemma raised_None_outcome:
  "raised r = None \<Longrightarrow> r = Inr (outcome r)"
  by (cases r) (auto simp: raised_def outcome_def)

lemma train_impl_Inr_restorable:
  "train_impl tr ck = Inr w' \<Longrightarrow> restorable ck"
  using train_impl_not_restorable [of ck tr] by (cases "restorable ck") auto

lemma completed_events:
  assumes "train_impl tr ck = Inr w'"
  shows "\<exists>new. list_all in_loop new \<and>
           events w' = entry_events ck @ new
             @ (if workdir_exists tr then [TouchTrainComplete] else []) @ [Sync]"
proof -
  have r: "restorable ck" using assms by (rule train_impl_Inr_restorable)
  obtain new where n: "list_all in_loop new"
    "events (outcome (train_impl tr ck)) = entry_events ck @ new
       @ (if raised (train_impl tr ck) = None then map snd (completion_events tr) else [])"
    using events_outcome_entry [OF r, of tr] by blast
  have "events w' = entry_events ck @ new
             @ (if workdir_exists tr then [TouchTrainComplete] else []) @ [Sync]"
    using n(2) assms by (simp add: completion_events_def)
  with n(1) show ?thesis by blast
qed

lemma entry_events_not_completion:
  "TouchTrainComplete \<notin> set (entry_events ck)" "Sync \<notin> set (entry_events ck)"
  by (simp_all add: entry_events_def startup_events_def)

lemma example_early_stop_fields [simp]:
  "num_train_steps example_early_stop = Some 2"
  "stop_after_steps example_early_stop = Some 1"
  "workdir_exists example_early_stop"
  "\<not> jax_disable_jit example_early_stop"
  "jax_transfer_guard example_early_stop = Unguarded"
  by (simp_all add: example_early_stop_def example_trainer_def)

lemma example_early_stop_run:
  "raised (train_impl example_early_stop no_checkpoint) = None"
  "trace (outcome (train_impl example_early_stop no_checkpoint)) =
     [(Unguarded, LogConfiguring), (Unguarded, SetupRun),
      (Unguarded, LogInitializing), (Unguarded, TrainstepInit False),
      (Unguarded, CkptRestore), (Unguarded, WriteConfig),
      (Unguarded, WriteParamOverview 0), (Unguarded, WriteElementSpec 0),
      (Unguarded, WriteContextStructure 0), (Unguarded, LogStarting 0),
      (Disallow, ExcludeEnter), (Disallow, CkptSave 0),
      (Disallow, MaybeEval ''eval'' 0), (Disallow, ExcludeExit),
      (Disallow, NextBatch 0), (Disallow, DevicePut),
      (Disallow, TrainstepStep True True True), (Disallow, FinishStep),
      (Disallow, WriteStepMetrics 0 True),
      (Disallow, CallHook Profiler 0), (Unguarded, TouchTrainComplete),
      (Allow, Sync)]"
  "train_result (outcome (train_impl example_early_stop no_checkpoint)) = (10, Some False)"
  by (simp_all add: train_impl_bounded [where n = 2] spec_total_steps_def model_defs
      train_result_def transfer_guard_def entry_events_def startup_events_def restored_def
      example_early_stop_def example_trainer_def PerformanceTimer_def)

lemma example_no_jit_fields [simp]:
  "num_train_steps example_no_jit = Some 2"
  "stop_after_steps example_no_jit = Some 1"
  "jax_disable_jit example_no_jit"
  by (simp_all add: example_no_jit_def example_trainer_def)

lemma example_no_jit_run:
  "raised (train_impl example_no_jit no_checkpoint) = None"
  "trace (outcome (train_impl example_no_jit no_checkpoint)) =
     [(Unguarded, LogConfiguring), (Unguarded, SetupRun),
      (Unguarded, LogInitializing), (Unguarded, TrainstepInit False),
      (Unguarded, CkptRestore), (Unguarded, WriteConfig),
      (Unguarded, WriteParamOverview 0), (Unguarded, WriteElementSpec 0),
      (Unguarded, WriteContextStructure 0), (Unguarded, LogStarting 0),
      (Unguarded, ExcludeEnter), (Unguarded, CkptSave 0),
      (Unguarded, MaybeEval ''eval'' 0), (Unguarded, ExcludeExit),
      (Unguarded, NextBatch 0), (Unguarded, DevicePut),
      (Unguarded, TrainstepStep True True True), (Unguarded, FinishStep),
      (Unguarded, WriteStepMetrics 0 True),
      (Unguarded, CallHook Profiler 0), (Unguarded, TouchTrainComplete),
      (Allow, Sync)]"
  by (simp_all add: train_impl_bounded [where n = 2] spec_total_steps_def model_defs
      transfer_guard_def entry_events_def startup_events_def restored_def
      example_no_jit_def example_trainer_def PerformanceTimer_def)

lemma example_no_jit_allow_run:
  "jax_disable_jit example_no_jit_allow" "jax_transfer_guard example_no_jit_allow = Allow"
  "trace (outcome (train_impl example_no_jit_allow no_checkpoint)) =
     [(Allow, LogConfiguring), (Allow, SetupRun),
      (Allow, LogInitializing), (Allow, TrainstepInit False),
      (Allow, CkptRestore), (Allow, WriteConfig),
      (Allow, WriteParamOverview 0), (Allow, WriteElementSpec 0),
      (Allow, WriteContextStructure 0), (Allow, LogStarting 0),
      (Allow, ExcludeEnter), (Allow, CkptSave 0),
      (Allow, MaybeEval ''eval'' 0), (Allow, ExcludeExit),
      (Allow, NextBatch 0), (Allow, DevicePut),
      (Allow, TrainstepStep True True True), (Allow, FinishStep),
      (Allow, WriteStepMetrics 0 True),
      (Allow, CallHook Profiler 0), (Allow, TouchTrainComplete),
      (Allow, Sync)]"
  by (simp_all add: train_impl_bounded [where n = 2] spec_total_steps_def model_defs
      transfer_guard_def entry_events_def startup_events_def restored_def
      example_no_jit_allow_def example_no_jit_def example_trainer_def PerformanceTimer_def)

lemma example_guarded_caller_run:
  "jax_transfer_guard example_guarded_caller = Disallow"
  "trace (outcome (train_impl example_guarded_caller no_checkpoint)) =
     [(Disallow, LogConfiguring), (Disallow, SetupRun),
      (Disallow, LogInitializing), (Disallow, TrainstepInit False),
      (Disallow, CkptRestore), (Disallow, WriteConfig),
      (Disallow, WriteParamOverview 0), (Disallow, WriteElementSpec 0),
      (Disallow, WriteContextStructure 0), (Disallow, LogStarting 0),
      (Disallow, ExcludeEnter), (Disallow, CkptSave 0),
      (Disallow, MaybeEval ''eval'' 0), (Disallow, ExcludeExit),
      (Disallow, NextBatch 0), (Disallow, DevicePut),
      (Disallow, TrainstepStep True True True), (Disallow, FinishStep),
      (Disallow, WriteStepMetrics 0 True),
      (Disallow, CallHook Profiler 0), (Disallow, TouchTrainComplete),
      (Allow, Sync)]"
  by (simp_all add: train_impl_bounded [where n = 2] spec_total_steps_def model_defs
      transfer_guard_def entry_events_def startup_events_def restored_def
      example_guarded_caller_def example_early_stop_def example_trainer_def PerformanceTimer_def)

lemma checkpoint_at_2_fields [simp]:
  "latest_step checkpoint_at_2 = Some 2"
  "initial_step_of checkpoint_at_2 = 2"
  "restorable checkpoint_at_2"
  by (simp_all add: checkpoint_at_2_def initial_step_of_def restorable_def)

lemma example_trainer_fields [simp]:
  "num_train_steps example_trainer = Some 2"
  "stop_after_steps example_trainer = None"
  "jax_transfer_guard example_trainer = Unguarded"
  by (simp_all add: example_trainer_def)

lemma in_loop_not_fresh_write:
  "list_all in_loop new \<Longrightarrow> filter is_fresh_write new = []"
proof (induction new)
  case Nil
  show ?case by simp
next
  case (Cons e new)
  then show ?case by (cases e) simp_all
qed

lemma fresh_writes_of_run:
  assumes "restorable ck"
  shows "filter is_fresh_write (events (outcome (train_impl tr ck))) =
           (if initial_step_of ck = 0
            then [WriteConfig, WriteParamOverview 0, WriteElementSpec 0, WriteContextStructure 0]
            else [])"
proof -
  obtain new where n: "list_all in_loop new"
    "events (outcome (train_impl tr ck)) = entry_events ck @ new
       @ (if raised (train_impl tr ck) = None then map snd (completion_events tr) else [])"
    using events_outcome_entry [OF assms, of tr] by blast
  show ?thesis
    by (simp add: n(2) in_loop_not_fresh_write [OF n(1)] entry_events_def startup_events_def
        completion_events_def)
qed

subsection \<open>Metric writes\<close>

lemma is_step_write_phase: "is_step_write e \<Longrightarrow> is_phase e"
  by (cases e) simp_all

lemma filter_step_write_phases:
  "filter is_step_write (phases w) = filter is_step_write (events w)"
  by (auto simp: phases_def intro!: filter_cong dest: is_step_write_phase)

lemma small_step_mod:
  fixes i m s :: int
  assumes "0 \<le> i" and "i < m" and "i < s"
  shows "(i mod m = 0 \<or> i mod s = 0) = (i = 0)"
proof -
  have m: "i mod m = i" and s: "i mod s = i" using assms by simp_all
  show ?thesis unfolding m s by simp
qed

lemma step_writes_body_order:
  "filter is_step_write (spec_body_order tr i c) =
     (if is_lead_host tr \<and> spec_logs tr i
      then [WriteStepMetrics i (i mod log_summaries_every tr = 0)] else [])"
  by (simp add: spec_body_order_def spec_logs_def Let_def filter_map comp_def)

lemma step_writes_loop_order:
  "filter is_step_write (spec_loop_order tr steps c) =
     (if is_lead_host tr
      then map (\<lambda>i. WriteStepMetrics i (i mod log_summaries_every tr = 0))
             (filter (spec_logs tr) steps)
      else [])"
  by (induction steps arbitrary: c) (simp_all add: spec_step_order_def step_writes_body_order)

lemma step_writes_of_loop:
  assumes "train_loop tr steps w = Inr w'"
  shows "filter is_step_write (events w') =
           filter is_step_write (events w)
           @ (if is_lead_host tr
              then map (\<lambda>i. WriteStepMetrics i (i mod log_summaries_every tr = 0))
                     (filter (spec_logs tr) steps)
              else [])"
proof -
  have "filter is_step_write (phases w') =
          filter is_step_write (phases w) @ filter is_step_write (spec_loop_order tr steps (ds_iter w))"
    by (simp add: train_loop_Inr [OF assms])
  then show ?thesis
    by (simp only: filter_step_write_phases step_writes_loop_order)
qed

lemma restored_checkpoint_at_2 [simp]:
  "restored tr checkpoint_at_2
     = (30, \<lparr>initial_step_num = 0, finished_steps = 2, excluded_intervals = 2\<rparr>, 2)"
  by (simp add: restored_def checkpoint_at_2_def)

lemma train_impl_completed:
  assumes "num_train_steps tr = Some n" and "restorable ck"
    and "[initial_step_of ck..spec_total_steps n (stop_after_steps tr) - 1] = steps"
    and "train_loop tr steps (loop_entry tr ck) = Inr w5"
  shows "train_impl tr ck = Inr (finish tr (w5\<lparr>guard := jax_transfer_guard tr\<rparr>))"
  unfolding train_impl_bounded [OF assms(1,2)] assms(3) assms(4) by simp

lemma train_impl_raised:
  assumes "num_train_steps tr = Some n" and "restorable ck"
    and "[initial_step_of ck..spec_total_steps n (stop_after_steps tr) - 1] = steps"
    and "train_loop tr steps (loop_entry tr ck) = Inl (e, w5)"
  shows "train_impl tr ck = Inl (e, w5\<lparr>guard := jax_transfer_guard tr\<rparr>)"
  unfolding train_impl_bounded [OF assms(1,2)] assms(3) assms(4) by simp

lemma example_resumed_entry [simp]:
  "state (loop_entry example_trainer checkpoint_at_2) = 30"
  "ds_iter (loop_entry example_trainer checkpoint_at_2) = 2"
  "finished_steps (timer (loop_entry example_trainer checkpoint_at_2)) = 2"
  "state (loop_entry example_checkify checkpoint_at_2) = 30"
  "ds_iter (loop_entry example_checkify checkpoint_at_2) = 2"
  "finished_steps (timer (loop_entry example_checkify checkpoint_at_2)) = 2"
  by simp_all

lemma example_resumed_loop:
  "raised (train_loop example_trainer [2] (loop_entry example_trainer checkpoint_at_2)) = None"
  "events (outcome (train_loop example_trainer [2] (loop_entry example_trainer checkpoint_at_2))) =
     [LogConfiguring, SetupRun, LogInitializing, TrainstepInit True, CkptRestore, LogStarting 2,
      ExcludeEnter, CkptSave 2, MaybeEval ''eval'' 2, ExcludeExit, NextBatch 2, DevicePut,
      TrainstepStep True False True, FinishStep, WriteStepMetrics 2 True, CallHook Profiler 2]"
  by (simp_all add: model_defs events_def entry_events_def startup_events_def example_trainer_def)

lemma example_resumed_run:
  "raised (train_impl example_trainer checkpoint_at_2) = None"
  "events (outcome (train_impl example_trainer checkpoint_at_2)) =
     [LogConfiguring, SetupRun, LogInitializing, TrainstepInit True, CkptRestore, LogStarting 2,
      ExcludeEnter, CkptSave 2, MaybeEval ''eval'' 2, ExcludeExit, NextBatch 2, DevicePut,
      TrainstepStep True False True, FinishStep, WriteStepMetrics 2 True, CallHook Profiler 2,
      TouchTrainComplete, Sync]"
proof -
  have r: "train_loop example_trainer [2] (loop_entry example_trainer checkpoint_at_2)
      = Inr (outcome (train_loop example_trainer [2] (loop_entry example_trainer checkpoint_at_2)))"
    by (rule raised_None_outcome) (rule example_resumed_loop)
  have t: "train_impl example_trainer checkpoint_at_2 =
      Inr (finish example_trainer
        ((outcome (train_loop example_trainer [2] (loop_entry example_trainer checkpoint_at_2)))
           \<lparr>guard := jax_transfer_guard example_trainer\<rparr>))"
    by (rule train_impl_completed [OF _ _ _ r, where n = 2]) (simp_all add: spec_total_steps_def)
  show "raised (train_impl example_trainer checkpoint_at_2) = None"
    by (simp add: t)
  have e: "\<And>(w::(int, bool) world) g. events (finish example_trainer (w\<lparr>guard := g\<rparr>))
      = events w @ [TouchTrainComplete, Sync]"
    by (simp add: events_def example_trainer_def)
  show "events (outcome (train_impl example_trainer checkpoint_at_2)) =
     [LogConfiguring, SetupRun, LogInitializing, TrainstepInit True, CkptRestore, LogStarting 2,
      ExcludeEnter, CkptSave 2, MaybeEval ''eval'' 2, ExcludeExit, NextBatch 2, DevicePut,
      TrainstepStep True False True, FinishStep, WriteStepMetrics 2 True, CallHook Profiler 2,
      TouchTrainComplete, Sync]"
    unfolding t outcome_simps e example_resumed_loop(2) by simp
qed

lemma example_checkify_fields [simp]:
  "num_train_steps example_checkify = Some 2"
  "stop_after_steps example_checkify = None"
  "checkify_error_categories example_checkify = [''nan'']"
  "is_lead_host example_checkify"
  "log_summaries_every example_checkify = 2"
  "train_ds example_checkify = [10, 20, 30, 40]"
  by (simp_all add: example_checkify_def example_trainer_def)

lemma example_checkify_loop:
  "raised (train_loop example_checkify [2] (loop_entry example_checkify checkpoint_at_2))
     = Some CheckifyError"
  "events (outcome (train_loop example_checkify [2] (loop_entry example_checkify checkpoint_at_2))) =
     [LogConfiguring, SetupRun, LogInitializing, TrainstepInit True, CkptRestore, LogStarting 2,
      ExcludeEnter, CkptSave 2, MaybeEval ''eval'' 2, ExcludeExit, NextBatch 2, DevicePut,
      TrainstepStep True False True, FinishStep, DeviceGetError]"
  "state (outcome (train_loop example_checkify [2] (loop_entry example_checkify checkpoint_at_2)))
     = 60"
  "finished_steps
     (timer (outcome (train_loop example_checkify [2] (loop_entry example_checkify checkpoint_at_2))))
     = 3"
  by (simp_all add: model_defs events_def entry_events_def startup_events_def
      example_checkify_def example_trainer_def)

lemma raised_Some_outcome:
  "raised r = Some e \<Longrightarrow> r = Inl (e, outcome r)"
  by (cases r) (auto simp: raised_def outcome_def)

lemma example_checkify_run:
  "raised (train_impl example_checkify checkpoint_at_2) = Some CheckifyError"
  "events (outcome (train_impl example_checkify checkpoint_at_2)) =
     [LogConfiguring, SetupRun, LogInitializing, TrainstepInit True, CkptRestore, LogStarting 2,
      ExcludeEnter, CkptSave 2, MaybeEval ''eval'' 2, ExcludeExit, NextBatch 2, DevicePut,
      TrainstepStep True False True, FinishStep, DeviceGetError]"
proof -
  have r: "train_loop example_checkify [2] (loop_entry example_checkify checkpoint_at_2)
      = Inl (CheckifyError,
          outcome (train_loop example_checkify [2] (loop_entry example_checkify checkpoint_at_2)))"
    by (rule raised_Some_outcome) (rule example_checkify_loop)
  have t: "train_impl example_checkify checkpoint_at_2 =
      Inl (CheckifyError,
        (outcome (train_loop example_checkify [2] (loop_entry example_checkify checkpoint_at_2)))
           \<lparr>guard := jax_transfer_guard example_checkify\<rparr>)"
    by (rule train_impl_raised [OF _ _ _ r, where n = 2]) (simp_all add: spec_total_steps_def)
  show "raised (train_impl example_checkify checkpoint_at_2) = Some CheckifyError"
    by (simp add: t)
  have e: "\<And>(w::(int, bool) world) g. events (w\<lparr>guard := g\<rparr>) = events w"
    by (simp add: events_def)
  show "events (outcome (train_impl example_checkify checkpoint_at_2)) =
     [LogConfiguring, SetupRun, LogInitializing, TrainstepInit True, CkptRestore, LogStarting 2,
      ExcludeEnter, CkptSave 2, MaybeEval ''eval'' 2, ExcludeExit, NextBatch 2, DevicePut,
      TrainstepStep True False True, FinishStep, DeviceGetError]"
    unfolding t outcome_simps e example_checkify_loop(2) by simp
qed

lemma raised_run_no_completion:
  assumes "train_impl tr ck = Inl (e, w')"
  shows "TouchTrainComplete \<notin> set (events w') \<and> Sync \<notin> set (events w')"
proof (cases "restorable ck")
  case False
  from train_impl_trace_not_restorable [OF False, of tr] assms show ?thesis
    by (auto simp: events_def startup_events_def)
next
  case True
  obtain new where n: "list_all in_loop new"
    "events (outcome (train_impl tr ck)) = entry_events ck @ new
       @ (if raised (train_impl tr ck) = None then map snd (completion_events tr) else [])"
    using events_outcome_entry [OF True, of tr] by blast
  have "TouchTrainComplete \<notin> set new" "Sync \<notin> set new"
    using n(1) by (auto simp: list_all_iff)
  then show ?thesis
    using n(2) assms by (simp add: entry_events_not_completion)
qed

lemma save_and_eval_no_step_write:
  "filter is_step_write (events (save_and_eval tr i w)) = filter is_step_write (events w)"
  by (simp add: events_def save_and_eval_trace comp_def filter_map)

lemma save_and_eval_timer:
  "finished_steps (timer (save_and_eval tr i w)) = finished_steps (timer w)"
  by (simp add: save_and_eval_def Let_def)

subsection \<open>Iterator positions, loop simulation and checkpoint lookups\<close>

lemma cursors_append [simp]: "cursors (xs @ ys) = cursors xs @ cursors ys"
  by (induction xs rule: cursors.induct) simp_all

lemma cursors_filter_phase: "cursors (filter is_phase es) = cursors es"
  by (induction es rule: cursors.induct) simp_all

lemma cursors_phases: "cursors (phases w) = cursors (events w)"
  by (simp add: phases_def cursors_filter_phase)

lemma cursors_evals [simp]: "cursors (map (\<lambda>evaluator. MaybeEval evaluator i) xs) = []"
  by (induction xs) simp_all

lemma cursors_step_order [simp]: "cursors (spec_step_order tr i c) = [c]"
  by (simp add: spec_step_order_def spec_body_order_def Let_def)

lemma cursors_loop_order: "cursors (spec_loop_order tr steps c) = [c..<c + length steps]"
  by (induction steps arbitrary: c) (simp_all add: upt_rec)

lemma cursors_entry_events [simp]: "cursors (entry_events ck) = []"
  by (simp add: entry_events_def startup_events_def)

lemma cursors_of_loop:
  assumes "train_loop tr steps w = Inr w'"
  shows "cursors (events w') = cursors (events w) @ [ds_iter w..<ds_iter w + length steps]"
proof -
  have "cursors (phases w') = cursors (phases w @ spec_loop_order tr steps (ds_iter w))"
    by (simp only: train_loop_Inr [OF assms])
  then show ?thesis
    by (simp add: cursors_phases cursors_loop_order)
qed

lemma ds_iter_of_loop:
  "train_loop tr steps w = Inr w' \<Longrightarrow> ds_iter w' = ds_iter w + length steps"
proof (induction steps arbitrary: w)
  case Nil
  then show ?case by simp
next
  case (Cons i rest)
  from Cons.prems obtain w1 where b: "train_body tr i w = Inr w1"
    and l: "train_loop tr rest (run_hooks tr i w1) = Inr w'"
    by (auto split: sum.splits)
  from Cons.IH [OF l] train_body_Inr(2) [OF b] show ?case by simp
qed

lemma train_loop_append:
  "train_loop tr (pre @ post) w = Inr w' \<Longrightarrow>
     \<exists>wk. train_loop tr pre w = Inr wk \<and> train_loop tr post wk = Inr w'"
proof (induction pre arbitrary: w)
  case Nil
  then show ?case by simp
next
  case (Cons i rest)
  from Cons.prems obtain w1 where b: "train_body tr i w = Inr w1"
    and l: "train_loop tr (rest @ post) (run_hooks tr i w1) = Inr w'"
    by (auto split: sum.splits)
  from Cons.IH [OF l] b show ?case by simp
qed

lemma exec_step_outcome:
  "raised (exec_step tr i ls lm b w) =
     (if checkify_error_categories tr \<noteq> []
         \<and> aux_error tr (snd (trainstep_step tr (state w) b (lm \<or> ls) lm ls
                                 (checkify_error_categories tr)))
      then Some CheckifyError else None)"
  "state (outcome (exec_step tr i ls lm b w)) =
     fst (trainstep_step tr (state w) b (lm \<or> ls) lm ls (checkify_error_categories tr))"
  "aux (outcome (exec_step tr i ls lm b w)) =
     Some (snd (trainstep_step tr (state w) b (lm \<or> ls) lm ls (checkify_error_categories tr)))"
  "ds_iter (outcome (exec_step tr i ls lm b w)) = ds_iter w"
  "ckpt (outcome (exec_step tr i ls lm b w)) = ckpt w"
  by (simp_all add: exec_step_def finish_step_def Let_def)

lemma train_body_unfold:
  "train_body tr i w =
     (case log_flags tr i of
        Inl e \<Rightarrow> Inl (e, save_and_eval tr i w)
      | Inr (ls, lm) \<Rightarrow>
          if ds_iter w < length (train_ds tr)
          then exec_step tr i ls lm (train_ds tr ! ds_iter w)
                 ((emit (NextBatch (ds_iter w)) (save_and_eval tr i w))\<lparr>ds_iter := Suc (ds_iter w)\<rparr>)
          else Inl (StopIteration, save_and_eval tr i w))"
  by (simp add: train_body_def next_batch_def Let_def split: sum.splits prod.splits)

lemma train_body_sim:
  assumes "state v = state w" and "ds_iter v = ds_iter w"
  shows "raised (train_body tr i v) = raised (train_body tr i w)"
    and "state (outcome (train_body tr i v)) = state (outcome (train_body tr i w))"
    and "ds_iter (outcome (train_body tr i v)) = ds_iter (outcome (train_body tr i w))"
    and "raised (train_body tr i w) = None \<Longrightarrow>
           aux (outcome (train_body tr i v)) = aux (outcome (train_body tr i w))"
  using assms
  by (auto simp: train_body_unfold exec_step_outcome split: sum.splits prod.splits)

lemma train_loop_sim:
  assumes "train_loop tr steps w = Inr w'" and "state v = state w" and "ds_iter v = ds_iter w"
  shows "\<exists>v'. train_loop tr steps v = Inr v' \<and> state v' = state w' \<and> ds_iter v' = ds_iter w'
            \<and> (steps \<noteq> [] \<or> aux v = aux w \<longrightarrow> aux v' = aux w')"
  using assms
proof (induction steps arbitrary: w v)
  case Nil
  then show ?case by simp
next
  case (Cons i rest)
  from Cons.prems(1) obtain w1 where b: "train_body tr i w = Inr w1"
    and l: "train_loop tr rest (run_hooks tr i w1) = Inr w'"
    by (auto split: sum.splits)
  have rw: "raised (train_body tr i w) = None" by (simp add: b)
  have "raised (train_body tr i v) = None"
    using train_body_sim(1) [OF Cons.prems(2,3), of tr i] rw by simp
  then obtain v1 where bv: "train_body tr i v = Inr v1"
    by (cases "train_body tr i v") (auto simp: raised_def)
  have s1: "state v1 = state w1" "ds_iter v1 = ds_iter w1" "aux v1 = aux w1"
    using train_body_sim(2,3) [OF Cons.prems(2,3), of tr i]
      train_body_sim(4) [OF Cons.prems(2,3) rw] b bv by simp_all
  have "\<exists>v'. train_loop tr rest (run_hooks tr i v1) = Inr v' \<and> state v' = state w'
            \<and> ds_iter v' = ds_iter w'
            \<and> (rest \<noteq> [] \<or> aux (run_hooks tr i v1) = aux (run_hooks tr i w1) \<longrightarrow> aux v' = aux w')"
    by (rule Cons.IH [OF l]) (simp_all add: s1)
  then show ?case
    using bv s1 by auto
qed

lemma save_and_eval_ckpt:
  "ckpt (save_and_eval tr i w) =
     (if should_save tr i then ckpt_save (state w, timer w, ds_iter w) i (ckpt w) else ckpt w)"
  by (simp add: save_and_eval_def Let_def)

lemma train_body_outcome_ckpt:
  "ckpt (outcome (train_body tr i w)) = ckpt (save_and_eval tr i w)"
  by (simp add: train_body_unfold exec_step_outcome(5) split: sum.splits prod.splits)

lemma train_body_ckpt:
  assumes "train_body tr i w = Inr w'"
  shows "ckpt w' = (if should_save tr i then ckpt_save (state w, timer w, ds_iter w) i (ckpt w)
                else ckpt w)"
  using train_body_outcome_ckpt [of tr i w] unfolding assms outcome_simps save_and_eval_ckpt .

lemma saved_other_step:
  "train_loop tr steps w = Inr w' \<Longrightarrow> k \<notin> set steps \<Longrightarrow>
     map_of (saved (ckpt w')) k = map_of (saved (ckpt w)) k"
proof (induction steps arbitrary: w)
  case Nil
  then show ?case by simp
next
  case (Cons i rest)
  from Cons.prems(1) obtain w1 where b: "train_body tr i w = Inr w1"
    and l: "train_loop tr rest (run_hooks tr i w1) = Inr w'"
    by (auto split: sum.splits)
  have "map_of (saved (ckpt w')) k = map_of (saved (ckpt w1)) k"
    using Cons.IH [OF l] Cons.prems(2) by simp
  also have "\<dots> = map_of (saved (ckpt w)) k"
    using train_body_ckpt [OF b] Cons.prems(2) by (simp add: ckpt_save_def)
  finally show ?case .
qed

lemma saved_at_step:
  assumes "train_loop tr (k # post) w = Inr w'" and "should_save tr k" and "k \<notin> set post"
  shows "map_of (saved (ckpt w')) k = Some (state w, timer w, ds_iter w)"
proof -
  from assms(1) obtain w1 where b: "train_body tr k w = Inr w1"
    and l: "train_loop tr post (run_hooks tr k w1) = Inr w'"
    by (auto split: sum.splits)
  have "map_of (saved (ckpt w')) k = map_of (saved (ckpt w1)) k"
    using saved_other_step [OF l assms(3)] by simp
  also have "\<dots> = Some (state w, timer w, ds_iter w)"
    using train_body_ckpt [OF b] assms(2) by (simp add: ckpt_save_def)
  finally show ?thesis .
qed

lemma resumed_entry:
  assumes "map_of (saved ck) k = Some (st, tm, it)"
  shows "restorable (ck\<lparr>latest_step := Some k\<rparr>)"
    and "initial_step_of (ck\<lparr>latest_step := Some k\<rparr>) = k"
    and "state (loop_entry tr (ck\<lparr>latest_step := Some k\<rparr>)) = st"
    and "ds_iter (loop_entry tr (ck\<lparr>latest_step := Some k\<rparr>)) = it"
    and "cursors (events (loop_entry tr (ck\<lparr>latest_step := Some k\<rparr>))) = []"
  using assms by (simp_all add: restorable_def initial_step_of_def restored_def events_def comp_def)

lemma cursors_finish [simp]:
  "cursors (events (finish tr (w\<lparr>guard := g\<rparr>))) = cursors (events w)"
  by (simp add: events_def)

lemma example_full_loop:
  "raised (train_loop example_trainer [0, 1, 2] (loop_entry example_trainer no_checkpoint)) = None"
  "cursors (events (outcome
      (train_loop example_trainer [0, 1, 2] (loop_entry example_trainer no_checkpoint)))) = [0, 1, 2]"
  by (simp_all add: model_defs events_def entry_events_def startup_events_def restored_def
      example_trainer_def)

lemma example_full_run:
  "raised (train_impl example_trainer no_checkpoint) = None"
  "batches_fetched example_trainer (outcome (train_impl example_trainer no_checkpoint)) = [10, 20, 30]"
proof -
  have r: "train_loop example_trainer [0, 1, 2] (loop_entry example_trainer no_checkpoint)
      = Inr (outcome (train_loop example_trainer [0, 1, 2] (loop_entry example_trainer no_checkpoint)))"
    by (rule raised_None_outcome) (rule example_full_loop)
  have t: "train_impl example_trainer no_checkpoint =
      Inr (finish example_trainer
        ((outcome (train_loop example_trainer [0, 1, 2] (loop_entry example_trainer no_checkpoint)))
           \<lparr>guard := jax_transfer_guard example_trainer\<rparr>))"
    by (rule train_impl_completed [OF _ _ _ r, where n = 2])
      (simp_all add: spec_total_steps_def upto_rec1)
  show "raised (train_impl example_trainer no_checkpoint) = None"
    by (simp add: t)
  have d: "train_ds example_trainer = [10, 20, 30, 40]"
    by (simp add: example_trainer_def)
  show "batches_fetched example_trainer (outcome (train_impl example_trainer no_checkpoint))
      = [10, 20, 30]"
    unfolding t outcome_simps batches_fetched_def cursors_finish example_full_loop(2) d by simp
qed

subsection \<open>Raising runs and the first step of a run\<close>

lemma train_loop_append_run:
  "train_loop tr pre w0 = Inr w \<Longrightarrow> train_loop tr (pre @ steps) w0 = train_loop tr steps w"
proof (induction pre arbitrary: w0)
  case Nil
  then show ?case by simp
next
  case (Cons i rest)
  from Cons.prems obtain w1 where b: "train_body tr i w0 = Inr w1"
    and l: "train_loop tr rest (run_hooks tr i w1) = Inr w"
    by (auto split: sum.splits)
  show ?case using Cons.IH [OF l] b by simp
qed

lemma events_guard_update:
  "events (w\<lparr>guard := g\<rparr>) = events w"
  by (simp add: events_def)

lemma train_loop_raises_at_head:
  "train_body tr k w = Inl (e, w') \<Longrightarrow> train_loop tr (k # post) w = Inl (e, w')"
  by simp

lemma example_checkify_prefix_loop:
  "raised (train_loop example_checkify [0, 1] (loop_entry example_checkify no_checkpoint)) = None"
  "state (outcome (train_loop example_checkify [0, 1] (loop_entry example_checkify no_checkpoint)))
     = 30"
  "ds_iter (outcome (train_loop example_checkify [0, 1] (loop_entry example_checkify no_checkpoint)))
     = 2"
  "finished_steps (timer (outcome
      (train_loop example_checkify [0, 1] (loop_entry example_checkify no_checkpoint)))) = 2"
  "filter is_step_write (events (outcome
      (train_loop example_checkify [0, 1] (loop_entry example_checkify no_checkpoint))))
     = [WriteStepMetrics 0 True]"
  by (simp_all add: model_defs events_def entry_events_def startup_events_def restored_def
      PerformanceTimer_def example_checkify_def example_trainer_def)

lemma train_body_first_events:
  "prefix (events w @ [ExcludeEnter] @ (if should_save tr i then [CkptSave i] else [])
             @ map (\<lambda>evaluator. MaybeEval evaluator i) (evals tr) @ [ExcludeExit])
          (events (outcome (train_body tr i w)))"
proof -
  let ?first = "[ExcludeEnter] @ (if should_save tr i then [CkptSave i] else [])
             @ map (\<lambda>evaluator. MaybeEval evaluator i) (evals tr) @ [ExcludeExit]"
  have s: "events (save_and_eval tr i w) = events w @ ?first"
    by (simp add: events_def save_and_eval_trace comp_def)
  have "\<exists>more. events (outcome (train_body tr i w)) = events (save_and_eval tr i w) @ more"
  proof (cases "log_flags tr i")
    case (Inl e)
    then show ?thesis by (simp add: train_body_unfold)
  next
    case (Inr flags)
    obtain ls lm where flags: "flags = (ls, lm)" by (cases flags)
    show ?thesis
      using Inr flags
      by (simp add: train_body_unfold events_def exec_step_trace)
  qed
  then show ?thesis
    unfolding s by (auto simp: prefix_def)
qed

lemma train_loop_events_prefix:
  "prefix (events w) (events (outcome (train_loop tr steps w)))"
  using train_loop_trace [of tr steps w] by (auto simp: events_def prefix_def)

lemma train_loop_first_events:
  "prefix (events w @ [ExcludeEnter] @ (if should_save tr i then [CkptSave i] else [])
             @ map (\<lambda>evaluator. MaybeEval evaluator i) (evals tr) @ [ExcludeExit])
          (events (outcome (train_loop tr (i # rest) w)))"
proof (cases "train_body tr i w")
  case (Inl p)
  then have "train_loop tr (i # rest) w = train_body tr i w" by simp
  then show ?thesis using train_body_first_events [of w tr i] by simp
next
  case (Inr w1)
  have a: "prefix (events w1) (events (run_hooks tr i w1))"
    by (simp add: events_def run_hooks_def hooks_def)
  have "prefix (events (run_hooks tr i w1))
          (events (outcome (train_loop tr rest (run_hooks tr i w1))))"
    by (rule train_loop_events_prefix)
  with a have "prefix (events w1) (events (outcome (train_loop tr (i # rest) w)))"
    using Inr by (auto intro: prefix_order.trans)
  moreover have "prefix (events w @ [ExcludeEnter] @ (if should_save tr i then [CkptSave i] else [])
             @ map (\<lambda>evaluator. MaybeEval evaluator i) (evals tr) @ [ExcludeExit]) (events w1)"
    using train_body_first_events [of w tr i] Inr by simp
  ultimately show ?thesis by (rule prefix_order.trans [rotated])
qed

lemma train_impl_events_prefix:
  assumes "num_train_steps tr = Some n" and "restorable ck"
    and "[initial_step_of ck..spec_total_steps n (stop_after_steps tr) - 1] = steps"
  shows "prefix (events (outcome (train_loop tr steps (loop_entry tr ck))))
           (events (outcome (train_impl tr ck)))"
  unfolding train_impl_bounded [OF assms(1,2)] assms(3)
  by (cases "train_loop tr steps (loop_entry tr ck)")
    (auto simp: events_def)

lemma entry_events_of_loop_entry: "events (loop_entry tr ck) = entry_events ck"
  by (simp add: events_def comp_def)

lemma resumed_run_first_step:
  assumes "num_train_steps tr = Some n" and "restorable ck"
    and "initial_step_of ck = k" and "k < spec_total_steps n (stop_after_steps tr)"
  shows "enum_steps_with_hooks (initial_step_of ck) (num_train_steps tr) (stop_after_steps tr)
           = Inr (k # [k + 1..spec_total_steps n (stop_after_steps tr) - 1])"
    and "train_impl tr ck =
           (case train_loop tr (k # [k + 1..spec_total_steps n (stop_after_steps tr) - 1])
                   (loop_entry tr ck) of
              Inl (e, w) \<Rightarrow> Inl (e, w\<lparr>guard := jax_transfer_guard tr\<rparr>)
            | Inr w \<Rightarrow> Inr (finish tr (w\<lparr>guard := jax_transfer_guard tr\<rparr>)))"
    and "prefix (entry_events ck @ [ExcludeEnter] @ (if should_save tr k then [CkptSave k] else [])
                   @ map (\<lambda>evaluator. MaybeEval evaluator k) (evals tr) @ [ExcludeExit])
                (events (outcome (train_impl tr ck)))"
proof -
  let ?T = "spec_total_steps n (stop_after_steps tr)"
  have u: "[initial_step_of ck..?T - 1] = k # [k + 1..?T - 1]"
    using assms(3,4) by (simp add: upto_rec1)
  show "enum_steps_with_hooks (initial_step_of ck) (num_train_steps tr) (stop_after_steps tr)
           = Inr (k # [k + 1..?T - 1])"
    unfolding assms(1) enum_steps_Some u ..
  show "train_impl tr ck =
           (case train_loop tr (k # [k + 1..?T - 1]) (loop_entry tr ck) of
              Inl (e, w) \<Rightarrow> Inl (e, w\<lparr>guard := jax_transfer_guard tr\<rparr>)
            | Inr w \<Rightarrow> Inr (finish tr (w\<lparr>guard := jax_transfer_guard tr\<rparr>)))"
    unfolding train_impl_bounded [OF assms(1,2)] u ..
  have "prefix (events (loop_entry tr ck) @ [ExcludeEnter]
                   @ (if should_save tr k then [CkptSave k] else [])
                   @ map (\<lambda>evaluator. MaybeEval evaluator k) (evals tr) @ [ExcludeExit])
          (events (outcome (train_loop tr (k # [k + 1..?T - 1]) (loop_entry tr ck))))"
    by (rule train_loop_first_events)
  then show "prefix (entry_events ck @ [ExcludeEnter] @ (if should_save tr k then [CkptSave k] else [])
                   @ map (\<lambda>evaluator. MaybeEval evaluator k) (evals tr) @ [ExcludeExit])
                (events (outcome (train_impl tr ck)))"
    unfolding entry_events_of_loop_entry
    using train_impl_events_prefix [OF assms(1,2) u] by (rule prefix_order.trans)
qed

subsection \<open>Step enumeration\<close>

text \<open>
  C2. For every \<open>initial_step \<le> num_train_steps\<close> the enumerated steps are exactly the
  consecutive integers from \<open>initial_step\<close> to \<open>total_steps - 1\<close>, where \<open>total_steps\<close> is
  \<open>min (num_train_steps + 1) stop_after_steps\<close> when \<open>stop_after_steps\<close> is defined and
  \<open>num_train_steps + 1\<close> otherwise; when \<open>stop_after_steps\<close> does not cut it off, the last
  step is \<open>num_train_steps\<close> itself.
\<close>

theorem enum_steps_sequence:
  assumes "initial_step \<le> n"
  shows "enum_steps_with_hooks initial_step (Some n) sas
           = Inr [initial_step..spec_total_steps n sas - 1]
         \<and> ((case sas of None \<Rightarrow> True | Some s \<Rightarrow> n < s)
              \<longrightarrow> enum_steps_with_hooks initial_step (Some n) sas = Inr [initial_step..n]
                  \<and> n \<in> set [initial_step..n])"
  using assms
  by (cases sas) (simp_all add: enum_steps_with_hooks_def enum_iter_def spec_total_steps_def min_def)

theorem enum_steps_sequence_witness:
  "(0::int) \<le> 10
   \<and> enum_steps_with_hooks 0 (Some 10) None = Inr [0, 1, 2, 3, 4, 5, 6, 7, 8, 9, 10]
   \<and> enum_steps_with_hooks 0 (Some 10) (Some 3) = Inr [0, 1, 2]
   \<and> enum_steps_with_hooks 7 (Some 10) (Some 20) = Inr [7, 8, 9, 10]"
  using enum_steps_sequence [of 0 10 None] enum_steps_sequence [of 0 10 "Some 3"]
    enum_steps_sequence [of 7 10 "Some 20"]
  by (simp add: spec_total_steps_def upto_rec1)

subsection \<open>Order of side effects within a step\<close>

text \<open>
  C1. For every executed step the per-step side effects occur in exactly the order
  (a) checkpoint save (when \<open>should_save\<close>), (b) every evaluator's \<open>maybe_eval\<close>,
  (c) batch fetch, (d) step execution, (e) timer update, (f) metrics write, (g) hooks:
  the ordered side effects of a loop that completes are the concatenation, step after
  step, of the specification's order, and those of a loop that raises are an initial
  segment of it. In particular the fetch of a step follows the save of that step.
\<close>

theorem train_loop_step_order:
  "(case train_loop tr steps w of
      Inr w' \<Rightarrow> phases w' = phases w @ spec_loop_order tr steps (ds_iter w)
    | Inl (e, w') \<Rightarrow>
        \<exists>rest. phases w' = phases w @ rest \<and> prefix rest (spec_loop_order tr steps (ds_iter w)))"
  using train_loop_Inr [of tr steps w] train_loop_Inl [of tr steps w]
  by (auto split: sum.splits)

theorem train_loop_step_order_witness:
  "\<exists>w'. train_loop example_trainer [0, 1] (startup example_trainer no_checkpoint) = Inr w'
      \<and> phases w' =
        [CkptSave 0, MaybeEval ''eval'' 0, NextBatch 0, TrainstepStep True True True, FinishStep,
         WriteStepMetrics 0 True, CallHook Profiler 0,
         MaybeEval ''eval'' 1, NextBatch 1, TrainstepStep False False False, FinishStep,
         CallHook Profiler 1]"
  using train_loop_step_order [where tr = example_trainer and steps = "[0, 1]"
      and w = "startup example_trainer no_checkpoint"]
  by (simp add: model_defs example_trainer_def no_checkpoint_def startup_def phases_def events_def
      spec_step_order_def spec_body_order_def PerformanceTimer_def)

subsection \<open>An undefined step budget\<close>

text \<open>
  C3, as stated, fails: with \<open>num_train_steps\<close> undefined the run does raise the configuration
  error, but only at the first request for a step, after the checkpoint restore and, on a
  start at step 0, after the four fresh-start writer calls.
\<close>

theorem undefined_steps_counterexample:
  "num_train_steps example_unbounded = None
   \<and> raised (train_impl example_unbounded no_checkpoint) = Some ValueError
   \<and> CkptRestore \<in> set (events (outcome (train_impl example_unbounded no_checkpoint)))
   \<and> WriteConfig \<in> set (events (outcome (train_impl example_unbounded no_checkpoint)))"
proof -
  have n: "num_train_steps example_unbounded = None"
    by (simp add: example_unbounded_def)
  show ?thesis
    by (simp add: n train_impl_unbounded [OF n no_checkpoint_restorable] events_def
        entry_events_def startup_events_def)
qed

text \<open>
  C3, amended. If \<open>num_train_steps\<close> is undefined and the restore succeeds, the run raises
  the configuration error before the first loop iteration: its side effects are exactly the
  setup, the state initialisation, the checkpoint restore, the four fresh-start writer calls
  when the initial step is 0, and the start log. No checkpoint is saved, no batch fetched,
  no step metrics written, no sentinel written and no barrier performed.
\<close>

theorem undefined_steps_fail_before_loop:
  assumes "num_train_steps tr = None" and "restorable ck"
  shows "raised (train_impl tr ck) = Some ValueError
       \<and> events (outcome (train_impl tr ck)) =
           [LogConfiguring, SetupRun, LogInitializing, TrainstepInit (latest_step ck \<noteq> None),
            CkptRestore]
           @ (if initial_step_of ck = 0
              then [WriteConfig, WriteParamOverview 0, WriteElementSpec 0, WriteContextStructure 0]
              else [])
           @ [LogStarting (initial_step_of ck)]
       \<and> ckpt (outcome (train_impl tr ck)) = ck"
  by (simp add: train_impl_unbounded [OF assms] events_def entry_events_def startup_events_def)

theorem undefined_steps_fail_before_loop_witness:
  "num_train_steps example_unbounded = None \<and> restorable no_checkpoint
   \<and> raised (train_impl example_unbounded no_checkpoint) = Some ValueError
   \<and> events (outcome (train_impl example_unbounded no_checkpoint)) =
       [LogConfiguring, SetupRun, LogInitializing, TrainstepInit False, CkptRestore,
        WriteConfig, WriteParamOverview 0, WriteElementSpec 0, WriteContextStructure 0,
        LogStarting 0]"
proof -
  have n: "num_train_steps example_unbounded = None"
    by (simp add: example_unbounded_def)
  show ?thesis
    using undefined_steps_fail_before_loop [OF n no_checkpoint_restorable]
    by (simp add: n)
qed

subsection \<open>The completion sentinel and the final barrier\<close>

text \<open>
  C7, as stated, fails: a loop that \<open>stop_after_steps\<close> ends before \<open>num_train_steps\<close> is a
  normal loop exit, and the sentinel is written.
\<close>

theorem early_stop_sentinel_counterexample:
  "num_train_steps example_early_stop = Some 2
   \<and> stop_after_steps example_early_stop = Some 1
   \<and> raised (train_impl example_early_stop no_checkpoint) = None
   \<and> TouchTrainComplete \<in> set (events (outcome (train_impl example_early_stop no_checkpoint)))"
  by (simp add: example_early_stop_run events_def)

text \<open>
  C7, amended. When the loop ends early because \<open>stop_after_steps < num_train_steps\<close> and
  nothing was raised, the completion sentinel is written exactly when the working directory
  exists, as on a full run.
\<close>

theorem early_stop_sentinel:
  assumes "num_train_steps tr = Some n" and "stop_after_steps tr = Some s" and "s < n"
    and "train_impl tr ck = Inr w'"
  shows "(TouchTrainComplete \<in> set (events w')) = workdir_exists tr"
proof -
  obtain new where n: "list_all in_loop new"
    "events w' = entry_events ck @ new
             @ (if workdir_exists tr then [TouchTrainComplete] else []) @ [Sync]"
    using completed_events [OF assms(4)] by blast
  have "TouchTrainComplete \<notin> set new"
    using n(1) by (rule in_loop_list_notin) simp
  then show ?thesis
    by (simp add: n(2) entry_events_not_completion)
qed

theorem early_stop_sentinel_witness:
  "num_train_steps example_early_stop = Some 2 \<and> stop_after_steps example_early_stop = Some 1
   \<and> (1::int) < 2
   \<and> train_impl example_early_stop no_checkpoint
        = Inr (outcome (train_impl example_early_stop no_checkpoint))
   \<and> TouchTrainComplete \<in> set (events (outcome (train_impl example_early_stop no_checkpoint)))
   \<and> workdir_exists example_early_stop"
proof -
  have r: "train_impl example_early_stop no_checkpoint
        = Inr (outcome (train_impl example_early_stop no_checkpoint))"
    by (rule raised_None_outcome) (rule example_early_stop_run)
  show ?thesis
    using early_stop_sentinel [OF _ _ _ r, of 2 1] r by simp
qed



subsection \<open>The transfer guard\<close>

text \<open>
  C9, as stated, fails: with \<open>jax_disable_jit\<close> set, \<open>_transfer_guard\<close> installs nothing and the
  loop body runs under the policy that was in force before.
\<close>

theorem transfer_guard_counterexample:
  "jax_disable_jit example_no_jit
   \<and> (Unguarded, TrainstepStep True True True)
       \<in> set (trace (outcome (train_impl example_no_jit no_checkpoint)))
   \<and> Disallow \<notin> fst ` set (trace (outcome (train_impl example_no_jit no_checkpoint)))"
  by (simp add: example_no_jit_run)

text \<open>
  C9, amended. Unless \<open>jax_disable_jit\<close> is set, every side effect of the loop body and of
  the hooks runs under the policy that disallows implicit transfers; with \<open>jax_disable_jit\<close>
  set no guard is installed and they run under the caller's policy, whatever it is. The
  final barrier runs under the relaxed policy, and every other side effect of the driver
  (startup, restore, fresh-start writes, sentinel) runs under the caller's policy: the driver
  itself relaxes the policy only for the barrier and tightens it only for the loop.
\<close>

theorem transfer_guard_scope:
  "\<forall>(g, e) \<in> set (trace (outcome (train_impl tr ck))).
     (in_loop e \<longrightarrow> g = (if jax_disable_jit tr then jax_transfer_guard tr else Disallow))
     \<and> (e = Sync \<longrightarrow> g = Allow)
     \<and> (\<not> in_loop e \<and> e \<noteq> Sync \<longrightarrow> g = jax_transfer_guard tr)
     \<and> (g = Allow \<and> jax_transfer_guard tr \<noteq> Allow \<longrightarrow> e = Sync)
     \<and> (g = Disallow \<and> jax_transfer_guard tr \<noteq> Disallow \<longrightarrow> in_loop e \<and> \<not> jax_disable_jit tr)"
proof (cases "restorable ck")
  case False
  show ?thesis
    by (auto simp: train_impl_trace_not_restorable [OF False] startup_events_def)
next
  case True
  obtain new where n: "list_all in_loop new"
    "trace (outcome (train_impl tr ck)) =
             map (Pair (jax_transfer_guard tr)) (entry_events ck)
             @ map (Pair (transfer_guard tr (jax_transfer_guard tr))) new
             @ (if raised (train_impl tr ck) = None then completion_events tr else [])"
    using train_impl_trace [OF True, of tr] by blast
  have a: "\<forall>e \<in> set (entry_events ck). \<not> in_loop e \<and> e \<noteq> Sync"
    by (auto simp: entry_events_def startup_events_def)
  have b: "\<forall>e \<in> set new. in_loop e \<and> e \<noteq> Sync"
    using n(1) by (auto simp: list_all_iff)
  show ?thesis
    unfolding n(2) using a b
    by (auto simp: transfer_guard_def completion_events_def split: if_splits)
qed

theorem transfer_guard_scope_witness:
  "(Disallow, TrainstepStep True True True)
     \<in> set (trace (outcome (train_impl example_early_stop no_checkpoint)))
   \<and> in_loop (TrainstepStep True True True) \<and> \<not> jax_disable_jit example_early_stop
   \<and> (Allow, Sync) \<in> set (trace (outcome (train_impl example_early_stop no_checkpoint)))
   \<and> (Unguarded, CkptRestore) \<in> set (trace (outcome (train_impl example_early_stop no_checkpoint)))
   \<and> \<not> in_loop CkptRestore \<and> jax_transfer_guard example_early_stop = Unguarded
   \<and> (Allow, TrainstepStep True True True)
       \<in> set (trace (outcome (train_impl example_no_jit_allow no_checkpoint)))
   \<and> jax_disable_jit example_no_jit_allow \<and> jax_transfer_guard example_no_jit_allow = Allow
   \<and> (Disallow, CkptRestore)
       \<in> set (trace (outcome (train_impl example_guarded_caller no_checkpoint)))
   \<and> (Disallow, TouchTrainComplete)
       \<in> set (trace (outcome (train_impl example_guarded_caller no_checkpoint)))
   \<and> (Allow, Sync) \<in> set (trace (outcome (train_impl example_guarded_caller no_checkpoint)))
   \<and> jax_transfer_guard example_guarded_caller = Disallow"
  using transfer_guard_scope [of example_early_stop no_checkpoint]
    transfer_guard_scope [of example_no_jit_allow no_checkpoint]
    transfer_guard_scope [of example_guarded_caller no_checkpoint]
  by (simp add: example_early_stop_run example_no_jit_allow_run example_guarded_caller_run)

subsection \<open>Where a resumed run starts\<close>

text \<open>
  C10, as stated, fails in its last part: a checkpoint whose latest step is 0 makes the
  initial step 0, and the fresh-start writer calls are performed although a checkpoint
  exists.
\<close>

theorem resume_fresh_writes_counterexample:
  "latest_step checkpoint_at_0 = Some 0 \<and> restorable checkpoint_at_0
   \<and> filter is_fresh_write (events (outcome (train_impl example_trainer checkpoint_at_0)))
       = [WriteConfig, WriteParamOverview 0, WriteElementSpec 0, WriteContextStructure 0]"
  by (simp add: fresh_writes_of_run)

text \<open>
  C10, amended. When the checkpoint to restore has latest step \<open>k\<close> and \<open>k\<close> is below
  \<open>total_steps\<close>, the first enumerated step of the resumed loop is \<open>k\<close> itself, not \<open>k + 1\<close>, and
  the run is the loop over \<open>k, k + 1, ...\<close> started from the restored state: after the startup
  its first side effects are those of step \<open>k\<close> (the save of step \<open>k\<close> when it is due and the
  evaluators at step \<open>k\<close>), so step \<open>k\<close> is executed again. Without a checkpoint the same holds
  with step 0. The fresh-start writer calls are performed exactly when the initial step is
  0, that is when no checkpoint exists or when the latest step is 0.
\<close>

theorem resume_first_step:
  assumes "num_train_steps tr = Some n" and "restorable ck"
  shows "(\<forall>k. latest_step ck = Some k \<and> k < spec_total_steps n (stop_after_steps tr) \<longrightarrow>
            enum_steps_with_hooks (initial_step_of ck) (num_train_steps tr) (stop_after_steps tr)
              = Inr (k # [k + 1..spec_total_steps n (stop_after_steps tr) - 1])
          \<and> train_impl tr ck =
              (case train_loop tr (k # [k + 1..spec_total_steps n (stop_after_steps tr) - 1])
                      (loop_entry tr ck) of
                 Inl (e, w) \<Rightarrow> Inl (e, w\<lparr>guard := jax_transfer_guard tr\<rparr>)
               | Inr w \<Rightarrow> Inr (finish tr (w\<lparr>guard := jax_transfer_guard tr\<rparr>)))
          \<and> prefix (entry_events ck @ [ExcludeEnter]
                      @ (if should_save tr k then [CkptSave k] else [])
                      @ map (\<lambda>evaluator. MaybeEval evaluator k) (evals tr) @ [ExcludeExit])
                (events (outcome (train_impl tr ck))))
       \<and> (latest_step ck = None \<and> 0 < spec_total_steps n (stop_after_steps tr) \<longrightarrow>
            enum_steps_with_hooks (initial_step_of ck) (num_train_steps tr) (stop_after_steps tr)
              = Inr (0 # [1..spec_total_steps n (stop_after_steps tr) - 1])
          \<and> train_impl tr ck =
              (case train_loop tr (0 # [1..spec_total_steps n (stop_after_steps tr) - 1])
                      (loop_entry tr ck) of
                 Inl (e, w) \<Rightarrow> Inl (e, w\<lparr>guard := jax_transfer_guard tr\<rparr>)
               | Inr w \<Rightarrow> Inr (finish tr (w\<lparr>guard := jax_transfer_guard tr\<rparr>)))
          \<and> prefix (entry_events ck @ [ExcludeEnter]
                      @ (if should_save tr 0 then [CkptSave 0] else [])
                      @ map (\<lambda>evaluator. MaybeEval evaluator 0) (evals tr) @ [ExcludeExit])
                (events (outcome (train_impl tr ck))))
       \<and> filter is_fresh_write (events (outcome (train_impl tr ck))) =
           (if latest_step ck = None \<or> latest_step ck = Some 0
            then [WriteConfig, WriteParamOverview 0, WriteElementSpec 0, WriteContextStructure 0]
            else [])"
proof -
  have i: "(initial_step_of ck = 0) = (latest_step ck = None \<or> latest_step ck = Some 0)"
    by (auto simp: initial_step_of_def split: option.splits)
  have k: "\<And>k. latest_step ck = Some k \<Longrightarrow> initial_step_of ck = k"
    by (simp add: initial_step_of_def)
  have z: "latest_step ck = None \<Longrightarrow> initial_step_of ck = 0"
    by (simp add: initial_step_of_def)
  have f: "filter is_fresh_write (events (outcome (train_impl tr ck))) =
           (if latest_step ck = None \<or> latest_step ck = Some 0
            then [WriteConfig, WriteParamOverview 0, WriteElementSpec 0, WriteContextStructure 0]
            else [])"
    using i by (simp add: fresh_writes_of_run [OF assms(2)])
  show ?thesis
    using resumed_run_first_step [OF assms k] resumed_run_first_step [OF assms z, simplified] f
    by (intro conjI allI impI) auto
qed

theorem resume_first_step_witness:
  "num_train_steps example_trainer = Some 2 \<and> restorable checkpoint_at_2
   \<and> latest_step checkpoint_at_2 = Some 2
   \<and> 2 < spec_total_steps 2 (stop_after_steps example_trainer)
   \<and> enum_steps_with_hooks (initial_step_of checkpoint_at_2) (num_train_steps example_trainer)
        (stop_after_steps example_trainer) = Inr [2]
   \<and> prefix [LogConfiguring, SetupRun, LogInitializing, TrainstepInit True, CkptRestore,
              LogStarting 2, ExcludeEnter, CkptSave 2, MaybeEval ''eval'' 2, ExcludeExit]
        (events (outcome (train_impl example_trainer checkpoint_at_2)))
   \<and> events (outcome (train_impl example_trainer checkpoint_at_2)) =
       [LogConfiguring, SetupRun, LogInitializing, TrainstepInit True, CkptRestore, LogStarting 2,
        ExcludeEnter, CkptSave 2, MaybeEval ''eval'' 2, ExcludeExit, NextBatch 2, DevicePut,
        TrainstepStep True False True, FinishStep, WriteStepMetrics 2 True, CallHook Profiler 2,
        TouchTrainComplete, Sync]
   \<and> filter is_fresh_write (events (outcome (train_impl example_trainer checkpoint_at_2))) = []"
proof -
  have e: "should_save example_trainer 2" "evals example_trainer = [''eval'']"
    by (simp_all add: example_trainer_def)
  have en: "entry_events checkpoint_at_2
      = [LogConfiguring, SetupRun, LogInitializing, TrainstepInit True, CkptRestore, LogStarting 2]"
    by (simp add: entry_events_def startup_events_def)
  have lt: "latest_step checkpoint_at_2 = Some 2"
    "2 < spec_total_steps 2 (stop_after_steps example_trainer)"
    by (simp_all add: spec_total_steps_def)
  note t = resume_first_step [OF example_trainer_fields(1) checkpoint_at_2_fields(3)]
  have c: "enum_steps_with_hooks (initial_step_of checkpoint_at_2) (num_train_steps example_trainer)
        (stop_after_steps example_trainer)
        = Inr (2 # [2 + 1..spec_total_steps 2 (stop_after_steps example_trainer) - 1])
      \<and> prefix (entry_events checkpoint_at_2 @ [ExcludeEnter]
                      @ (if should_save example_trainer 2 then [CkptSave 2] else [])
                      @ map (\<lambda>evaluator. MaybeEval evaluator 2) (evals example_trainer)
                      @ [ExcludeExit])
                (events (outcome (train_impl example_trainer checkpoint_at_2)))"
    using t lt by blast
  show ?thesis
    using c lt by (simp add: spec_total_steps_def e en example_resumed_run(2) fresh_writes_of_run)
qed

subsection \<open>Logging cadence\<close>

text \<open>
  C5, amended. On the lead host, in a loop that completes, \<open>write_step_metrics\<close> is invoked at
  step \<open>i\<close> if and only if \<open>i mod log_metrics_every = 0\<close> or \<open>i mod log_summaries_every = 0\<close>,
  once, with \<open>log_summaries\<close> set iff the summaries cadence divides \<open>i\<close>; on other hosts it is
  never invoked. With \<open>log_metrics_every = 1\<close> every step logs on the lead host, and when both
  cadences exceed every step index, no step other than step 0 logs.
\<close>

theorem write_step_metrics_cadence:
  assumes "train_loop tr steps w = Inr w'"
  shows "filter is_step_write (events w') =
           filter is_step_write (events w)
           @ (if is_lead_host tr
              then map (\<lambda>i. WriteStepMetrics i (i mod log_summaries_every tr = 0))
                     (filter (\<lambda>i. i mod log_metrics_every tr = 0 \<or> i mod log_summaries_every tr = 0)
                        steps)
              else [])
       \<and> (log_metrics_every tr = 1 \<longrightarrow>
            filter (\<lambda>i. i mod log_metrics_every tr = 0 \<or> i mod log_summaries_every tr = 0) steps
              = steps)
       \<and> ((\<forall>i \<in> set steps. 0 \<le> i \<and> i < log_metrics_every tr \<and> i < log_summaries_every tr) \<longrightarrow>
            filter (\<lambda>i. i mod log_metrics_every tr = 0 \<or> i mod log_summaries_every tr = 0) steps
              = filter (\<lambda>i. i = 0) steps)"
proof -
  have a: "spec_logs tr = (\<lambda>i. i mod log_metrics_every tr = 0 \<or> i mod log_summaries_every tr = 0)"
    by (simp add: spec_logs_def fun_eq_iff)
  have b: "log_metrics_every tr = 1 \<longrightarrow>
            filter (\<lambda>i. i mod log_metrics_every tr = 0 \<or> i mod log_summaries_every tr = 0) steps
              = steps"
    by simp
  have c: "(\<forall>i \<in> set steps. 0 \<le> i \<and> i < log_metrics_every tr \<and> i < log_summaries_every tr) \<longrightarrow>
            filter (\<lambda>i. i mod log_metrics_every tr = 0 \<or> i mod log_summaries_every tr = 0) steps
              = filter (\<lambda>i. i = 0) steps"
    by (intro impI filter_cong refl small_step_mod) auto
  show ?thesis
    using step_writes_of_loop [OF assms] b c unfolding a by blast
qed

theorem write_step_metrics_cadence_witness:
  "train_loop example_trainer [2] (loop_entry example_trainer checkpoint_at_2)
     = Inr (outcome (train_loop example_trainer [2] (loop_entry example_trainer checkpoint_at_2)))
   \<and> is_lead_host example_trainer
   \<and> filter is_step_write
        (events (outcome (train_loop example_trainer [2] (loop_entry example_trainer checkpoint_at_2))))
       = [WriteStepMetrics 2 True]
   \<and> (2::int) mod log_summaries_every example_trainer = 0"
proof -
  have r: "train_loop example_trainer [2] (loop_entry example_trainer checkpoint_at_2)
      = Inr (outcome (train_loop example_trainer [2] (loop_entry example_trainer checkpoint_at_2)))"
    by (rule raised_None_outcome) (rule example_resumed_loop)
  have e: "filter is_step_write (events (loop_entry example_trainer checkpoint_at_2)) = []"
    by (simp add: events_def entry_events_def startup_events_def)
  have l: "is_lead_host example_trainer" "log_summaries_every example_trainer = 2"
    "log_metrics_every example_trainer = 3"
    by (simp_all add: example_trainer_def)
  show ?thesis
    using write_step_metrics_cadence [OF r] r by (simp add: e l)
qed

text \<open>
  C5, as stated, fails: the write is triggered by either cadence, and only on the lead
  host. With \<open>log_metrics_every = 3\<close> and \<open>log_summaries_every = 2\<close>, step 2 writes although
  \<open>2 mod 3\<close> is not 0.
\<close>

theorem logging_cadence_counterexample:
  "log_metrics_every example_trainer = 3
   \<and> (2::int) mod 3 \<noteq> 0
   \<and> raised (train_impl example_trainer checkpoint_at_2) = None
   \<and> WriteStepMetrics 2 True \<in> set (events (outcome (train_impl example_trainer checkpoint_at_2)))"
  by (simp add: example_resumed_run) (simp add: example_trainer_def)

subsection \<open>Deferred errors of the step\<close>

text \<open>
  C6, as stated, fails in its middle part: the raise comes right after \<open>timer.finish_step()\<close>
  and before the metrics write, so the failing step never writes its metrics, even on the
  lead host at a step whose cadence matches.
\<close>

theorem checkify_counterexample:
  "checkify_error_categories example_checkify \<noteq> []
   \<and> is_lead_host example_checkify
   \<and> (2::int) mod log_summaries_every example_checkify = 0
   \<and> raised (train_impl example_checkify checkpoint_at_2) = Some CheckifyError
   \<and> FinishStep \<in> set (events (outcome (train_impl example_checkify checkpoint_at_2)))
   \<and> filter is_step_write (events (outcome (train_impl example_checkify checkpoint_at_2))) = []"
  by (simp add: example_checkify_run)

text \<open>
  C6, amended. When checkify error tracking is enabled and the step execution reports a
  categorized error at step \<open>k\<close> of a run, the run raises that error right after the step's
  state and timer updates: the state and the auxiliaries at the raise are the step's
  results and the timer has counted the step; \<open>write_step_metrics\<close> for step \<open>k\<close> has not run;
  no later step runs, and neither the completion sentinel nor the barrier occurs.
\<close>

theorem checkify_raise_after_commit:
  assumes "checkify_error_categories tr \<noteq> []"
    and "num_train_steps tr = Some n" and "restorable ck"
    and "[initial_step_of ck..spec_total_steps n (stop_after_steps tr) - 1] = pre @ k # post"
    and "train_loop tr pre (loop_entry tr ck) = Inr w"
    and "log_flags tr k = Inr (ls, lm)"
    and "ds_iter w < length (train_ds tr)"
    and "r = trainstep_step tr (state w) (train_ds tr ! ds_iter w) (lm \<or> ls) lm ls
               (checkify_error_categories tr)"
    and "aux_error tr (snd r)"
  shows "\<exists>w'. train_body tr k w = Inl (CheckifyError, w')
            \<and> train_impl tr ck = Inl (CheckifyError, w'\<lparr>guard := jax_transfer_guard tr\<rparr>)
            \<and> state w' = fst r \<and> aux w' = Some (snd r)
            \<and> finished_steps (timer w') = Suc (finished_steps (timer w))
            \<and> (\<exists>before. events w' = before @ [FinishStep, DeviceGetError])
            \<and> filter is_step_write (events w') = filter is_step_write (events w)
            \<and> TouchTrainComplete \<notin> set (events w') \<and> Sync \<notin> set (events w')"
proof -
  let ?w1 = "save_and_eval tr k w"
  let ?w2 = "(emit (NextBatch (ds_iter ?w1)) ?w1)\<lparr>ds_iter := Suc (ds_iter ?w1)\<rparr>"
  let ?w3 = "(emit (TrainstepStep (lm \<or> ls) lm ls) (emit DevicePut ?w2))
               \<lparr>state := fst r, aux := Some (snd r)\<rparr>"
  let ?w' = "emit DeviceGetError (finish_step ?w3)"
  have b: "train_body tr k w = Inl (CheckifyError, ?w')"
    using assms(1,6-9) by (simp add: train_body_def next_batch_def exec_step_def Let_def)
  have "train_loop tr (pre @ k # post) (loop_entry tr ck) = train_loop tr (k # post) w"
    by (rule train_loop_append_run [OF assms(5)])
  also have "\<dots> = Inl (CheckifyError, ?w')"
    by (rule train_loop_raises_at_head [OF b])
  finally have l: "train_loop tr (pre @ k # post) (loop_entry tr ck) = Inl (CheckifyError, ?w')" .
  have run: "train_impl tr ck = Inl (CheckifyError, ?w'\<lparr>guard := jax_transfer_guard tr\<rparr>)"
    by (rule train_impl_raised [OF assms(2,3,4) l])
  have nc: "TouchTrainComplete \<notin> set (events ?w') \<and> Sync \<notin> set (events ?w')"
    using raised_run_no_completion [OF run] by (simp add: events_def)
  have "state ?w' = fst r \<and> aux ?w' = Some (snd r)"
    by (simp add: finish_step_def)
  moreover have "finished_steps (timer ?w') = Suc (finished_steps (timer w))"
    by (simp add: finish_step_def save_and_eval_timer)
  moreover have "events ?w' =
      (events ?w1 @ [NextBatch (ds_iter ?w1), DevicePut, TrainstepStep (lm \<or> ls) lm ls])
      @ [FinishStep, DeviceGetError]"
    by (simp add: events_def finish_step_def)
  moreover have "filter is_step_write (events ?w') = filter is_step_write (events w)"
    using save_and_eval_no_step_write [of tr k w]
    by (simp add: events_def finish_step_def)
  ultimately show ?thesis
    using b run nc by blast
qed

theorem checkify_raise_after_commit_witness:
  "checkify_error_categories example_checkify \<noteq> []
   \<and> num_train_steps example_checkify = Some 2 \<and> restorable no_checkpoint
   \<and> [initial_step_of no_checkpoint..spec_total_steps 2 (stop_after_steps example_checkify) - 1]
       = [0, 1] @ 2 # []
   \<and> train_loop example_checkify [0, 1] (loop_entry example_checkify no_checkpoint)
       = Inr (outcome (train_loop example_checkify [0, 1] (loop_entry example_checkify no_checkpoint)))
   \<and> log_flags example_checkify 2 = Inr (True, False)
   \<and> aux_error example_checkify True
   \<and> (\<exists>w'. train_impl example_checkify no_checkpoint = Inl (CheckifyError, w')
          \<and> state w' = 60 \<and> aux w' = Some True \<and> finished_steps (timer w') = 3
          \<and> filter is_step_write (events w') = [WriteStepMetrics 0 True]
          \<and> TouchTrainComplete \<notin> set (events w') \<and> Sync \<notin> set (events w'))"
proof -
  let ?W = "outcome (train_loop example_checkify [0, 1] (loop_entry example_checkify no_checkpoint))"
  have p: "train_loop example_checkify [0, 1] (loop_entry example_checkify no_checkpoint) = Inr ?W"
    by (rule raised_None_outcome) (rule example_checkify_prefix_loop)
  have f: "log_flags example_checkify 2 = Inr (True, False)"
    by (simp add: log_flags_def example_checkify_def example_trainer_def)
  have s: "trainstep_step example_checkify 30 30 True False True [''nan''] = (60, True)"
    "aux_error example_checkify True"
    by (simp_all add: example_checkify_def example_trainer_def)
  have st: "[initial_step_of no_checkpoint..spec_total_steps 2 (stop_after_steps example_checkify) - 1]
       = [0, 1] @ 2 # []"
    by (simp add: spec_total_steps_def upto_rec1)
  have c: "checkify_error_categories example_checkify \<noteq> []" by simp
  have d: "ds_iter ?W < length (train_ds example_checkify)"
    by (simp add: example_checkify_prefix_loop del: train_loop.simps)
  have r: "(60, True) = trainstep_step example_checkify (state ?W) (train_ds example_checkify ! ds_iter ?W)
              (False \<or> True) False True (checkify_error_categories example_checkify)"
    by (simp add: example_checkify_prefix_loop s del: train_loop.simps)
  have a: "aux_error example_checkify (snd (60::int, True))" by (simp add: s)
  obtain w' where w': "train_impl example_checkify no_checkpoint
        = Inl (CheckifyError, w'\<lparr>guard := jax_transfer_guard example_checkify\<rparr>)"
      "state w' = fst (60::int, True)" "aux w' = Some (snd (60::int, True))"
      "finished_steps (timer w') = Suc (finished_steps (timer ?W))"
      "filter is_step_write (events w') = filter is_step_write (events ?W)"
      "TouchTrainComplete \<notin> set (events w') \<and> Sync \<notin> set (events w')"
    using checkify_raise_after_commit [OF c example_checkify_fields(1) no_checkpoint_restorable
        st p f d r a]
    by blast
  let ?v = "w'\<lparr>guard := jax_transfer_guard example_checkify\<rparr>"
  have "train_impl example_checkify no_checkpoint = Inl (CheckifyError, ?v)
          \<and> state ?v = 60 \<and> aux ?v = Some True \<and> finished_steps (timer ?v) = 3
          \<and> filter is_step_write (events ?v) = [WriteStepMetrics 0 True]
          \<and> TouchTrainComplete \<notin> set (events ?v) \<and> Sync \<notin> set (events ?v)"
    using w'
    by (simp add: example_checkify_prefix_loop events_guard_update del: train_loop.simps)
  then have "\<exists>w'. train_impl example_checkify no_checkpoint = Inl (CheckifyError, w')
          \<and> state w' = 60 \<and> aux w' = Some True \<and> finished_steps (timer w') = 3
          \<and> filter is_step_write (events w') = [WriteStepMetrics 0 True]
          \<and> TouchTrainComplete \<notin> set (events w') \<and> Sync \<notin> set (events w')"
    by blast
  then show ?thesis
    using p f s(2) st c by (simp del: train_loop.simps)
qed

subsection \<open>Resuming from a checkpoint\<close>

text \<open>
  C4. Resume round-trip: after a run that completes, restarting with the checkpointer's
  latest step set to a step \<open>k\<close> of that run at which a save fired completes too, and
  fetches, from step \<open>k\<close> on (so in particular from step \<open>k + 1\<close> on), the batches the
  uninterrupted run fetched at those steps: the save at step \<open>k\<close> stored the iterator
  position before the fetch of step \<open>k\<close>, and the restart restores it. It also returns the
  same final state and auxiliaries.
\<close>

theorem resume_round_trip:
  assumes "train_impl tr ck = Inr w1"
    and "num_train_steps tr = Some n"
    and "initial_step_of ck \<le> k" and "k < spec_total_steps n (stop_after_steps tr)"
    and "should_save tr k"
  shows "\<exists>w2. train_impl tr ((ckpt w1)\<lparr>latest_step := Some k\<rparr>) = Inr w2
           \<and> batches_fetched tr w2 = drop (nat (k - initial_step_of ck)) (batches_fetched tr w1)
           \<and> (\<forall>j. k \<le> j \<and> j < spec_total_steps n (stop_after_steps tr) \<longrightarrow>
                 batches_fetched tr w2 ! nat (j - k)
                   = batches_fetched tr w1 ! nat (j - initial_step_of ck))
           \<and> train_result w2 = train_result w1"
proof -
  let ?T = "spec_total_steps n (stop_after_steps tr)"
  let ?i0 = "initial_step_of ck"
  let ?pre = "[?i0..k - 1]"
  let ?post = "[k + 1..?T - 1]"
  let ?d = "nat (k - ?i0)"
  have r: "restorable ck" using assms(1) by (rule train_impl_Inr_restorable)
  have split: "[?i0..?T - 1] = ?pre @ k # ?post"
    using assms(3,4) upto_split1 [of ?i0 k "?T - 1"] by (simp add: upto_rec1)
  obtain w5 where l1: "train_loop tr [?i0..?T - 1] (loop_entry tr ck) = Inr w5"
    and w1: "w1 = finish tr (w5\<lparr>guard := jax_transfer_guard tr\<rparr>)"
    using assms(1) unfolding train_impl_bounded [OF assms(2) r]
    by (auto split: sum.splits)
  obtain wk where lpre: "train_loop tr ?pre (loop_entry tr ck) = Inr wk"
    and lpost: "train_loop tr (k # ?post) wk = Inr w5"
    using train_loop_append [of tr ?pre "k # ?post"] l1 unfolding split by blast
  have sv: "map_of (saved (ckpt w1)) k = Some (state wk, timer wk, ds_iter wk)"
    using saved_at_step [OF lpost assms(5)] by (simp add: w1)
  let ?ck2 = "(ckpt w1)\<lparr>latest_step := Some k\<rparr>"
  note e2 = resumed_entry [OF sv]
  obtain v5 where l2: "train_loop tr (k # ?post) (loop_entry tr ?ck2) = Inr v5"
    and s5: "state v5 = state w5" "aux v5 = aux w5"
    using train_loop_sim [OF lpost, of "loop_entry tr ?ck2"] e2(3,4) by auto
  have steps2: "[initial_step_of ?ck2..?T - 1] = k # ?post"
    using assms(4) by (simp add: e2(2) upto_rec1)
  let ?w2 = "finish tr (v5\<lparr>guard := jax_transfer_guard tr\<rparr>)"
  have run2: "train_impl tr ?ck2 = Inr ?w2"
    by (rule train_impl_completed [OF assms(2) e2(1) steps2 l2])
  have c0: "cursors (events (loop_entry tr ck)) = []"
    by (simp add: events_def comp_def)
  define c where "c = ds_iter (loop_entry tr ck)"
  define L where "L = length (k # ?post)"
  have lenpre: "length ?pre = ?d" using assms(3) by simp
  have dk: "ds_iter wk = c + ?d"
    using ds_iter_of_loop [OF lpre] unfolding lenpre c_def .
  have "cursors (events w5) = [] @ [c..<c + (length ?pre + length (k # ?post))]"
    using cursors_of_loop [OF l1] unfolding split c0 length_append c_def .
  then have c1: "cursors (events w1) = [c..<c + (?d + L)]"
    unfolding lenpre L_def w1 cursors_finish by simp
  have "cursors (events v5) = [] @ [c + ?d..<c + ?d + length (k # ?post)]"
    using cursors_of_loop [OF l2] unfolding e2(4) e2(5) dk .
  then have c2: "cursors (events ?w2) = [c + ?d..<c + ?d + L]"
    unfolding L_def cursors_finish by simp
  have cd: "cursors (events ?w2) = drop ?d (cursors (events w1))"
    unfolding c1 c2 by (simp add: drop_upt add.assoc)
  have b: "batches_fetched tr ?w2 = drop ?d (batches_fetched tr w1)"
    unfolding batches_fetched_def cd by (simp add: drop_map)
  have len1: "length (batches_fetched tr w1) = ?d + L"
    unfolding batches_fetched_def c1 by simp
  have nth: "\<forall>j. k \<le> j \<and> j < ?T \<longrightarrow>
      batches_fetched tr ?w2 ! nat (j - k) = batches_fetched tr w1 ! nat (j - ?i0)"
  proof (intro allI impI)
    fix j assume j: "k \<le> j \<and> j < ?T"
    have "?d + nat (j - k) = nat (j - ?i0)" using j assms(3) by linarith
    moreover have "?d \<le> length (batches_fetched tr w1)" using len1 by simp
    ultimately show "batches_fetched tr ?w2 ! nat (j - k) = batches_fetched tr w1 ! nat (j - ?i0)"
      unfolding b by (simp add: nth_drop)
  qed
  have res: "train_result ?w2 = train_result w1"
    by (simp add: train_result_def w1 s5)
  from run2 b nth res show ?thesis by blast
qed

theorem resume_round_trip_witness:
  "train_impl example_trainer no_checkpoint
     = Inr (outcome (train_impl example_trainer no_checkpoint))
   \<and> num_train_steps example_trainer = Some 2
   \<and> initial_step_of no_checkpoint \<le> 2
   \<and> 2 < spec_total_steps 2 (stop_after_steps example_trainer)
   \<and> should_save example_trainer 2
   \<and> batches_fetched example_trainer (outcome (train_impl example_trainer no_checkpoint))
        = [10, 20, 30]
   \<and> (\<exists>w2. train_impl example_trainer
              ((ckpt (outcome (train_impl example_trainer no_checkpoint)))\<lparr>latest_step := Some 2\<rparr>)
              = Inr w2
          \<and> batches_fetched example_trainer w2 = [30])"
proof -
  have r: "train_impl example_trainer no_checkpoint
     = Inr (outcome (train_impl example_trainer no_checkpoint))"
    by (rule raised_None_outcome) (rule example_full_run)
  have s: "should_save example_trainer 2" by (simp add: example_trainer_def)
  have t: "2 < spec_total_steps 2 (stop_after_steps example_trainer)"
    by (simp add: spec_total_steps_def)
  have "\<exists>w2. train_impl example_trainer
              ((ckpt (outcome (train_impl example_trainer no_checkpoint)))\<lparr>latest_step := Some 2\<rparr>)
              = Inr w2
          \<and> batches_fetched example_trainer w2 = [30]"
    using resume_round_trip [OF r example_trainer_fields(1) _ t s]
    by (simp add: example_full_run(2)) blast
  then show ?thesis
    using r s t by (simp add: example_full_run(2))
qed

end
